theory Spec2Isabelle
  imports Complex_Main "HOL-Library.Log_Nat"
begin

section \<open>Stochastic hill climbing (Solid/StochasticHillClimb.py)\<close>

text \<open>
  The class \<open>StochasticHillClimb\<close> is embedded as a record of its attributes, and its
  methods as functions that take the object and return the updated one. Python floats
  are idealised as reals; the one place where the range of a double matters to the
  control flow, the \<open>OverflowError\<close> of \<open>math.exp\<close>, is kept. Exceptions are values of
  type \<open>error\<close>; the operations of the problem model (the three abstract methods) are
  taken to return normally.
\<close>

subsection \<open>Python values\<close>

text \<open>The exceptions: those the engine raises itself, and \<open>OtherError\<close> for any other
  class of exception a problem model may raise, by its name.\<close>

datatype error =
  ValueError string | ZeroDivisionError | TypeError | OverflowError | OtherError string

text \<open>What the attributes \<open>best_objective\<close> and \<open>current_objective\<close> can hold:
  \<open>None\<close>, \<open>float('-inf')\<close>, or a number returned by \<open>_objective\<close>.\<close>

datatype pyval = PyNone | NegInf | Num real

text \<open>\<open>a > b\<close>; comparing with \<open>None\<close> raises \<open>TypeError\<close>.\<close>

fun py_gt :: "pyval \<Rightarrow> pyval \<Rightarrow> error + bool" where
  "py_gt PyNone b = Inl TypeError"
| "py_gt a PyNone = Inl TypeError"
| "py_gt NegInf b = Inr False"
| "py_gt (Num x) NegInf = Inr True"
| "py_gt (Num x) (Num y) = Inr (x > y)"

text \<open>\<open>a or 0\<close>: \<open>None\<close> and zero are falsy, \<open>float('-inf')\<close> and every other number
  are truthy.\<close>

fun py_or0 :: "pyval \<Rightarrow> pyval" where
  "py_or0 PyNone = Num 0"
| "py_or0 NegInf = NegInf"
| "py_or0 (Num x) = (if x = 0 then Num 0 else Num x)"

text \<open>The largest finite double; \<open>math.exp x\<close> raises \<open>OverflowError\<close> when its result
  exceeds it.\<close>

definition dbl_max :: real where
  "dbl_max = (2 ^ 53 - 1) * 2 ^ 971"

definition exp_overflows :: "real \<Rightarrow> bool" where
  "exp_overflows x \<longleftrightarrow> dbl_max < exp x"

subsection \<open>The problem model and the engine\<close>

text \<open>The abstract methods \<open>_objective\<close>, \<open>_neighbor\<close> and \<open>_random\<close>, and the module's
  \<open>random()\<close>. \<open>_objective\<close> is a function of the value it is given, which is the
  content of an attribute and so possibly \<open>None\<close>. \<open>_neighbor\<close> reads
  \<open>self.current_state\<close>; it and \<open>_random\<close> may answer differently at each call, so they
  take the number of the call. \<open>uniform k\<close> is the draw of \<open>random()\<close> in climbing
  iteration \<open>k\<close>.\<close>

record 's problem =
  objective :: "'s option \<Rightarrow> real"
  neighbor :: "nat \<Rightarrow> 's option \<Rightarrow> 's"
  random_state :: "nat \<Rightarrow> 's"
  uniform :: "nat \<Rightarrow> real"

text \<open>The attributes of the object. \<open>evaluated\<close> is not an attribute: it logs the
  results of the calls to \<open>_objective\<close> of the current run, latest first.\<close>

record 's shc =
  initial_state :: 's
  current_state :: "'s option"
  best_state :: "'s option"
  cur_steps :: int
  max_steps :: int
  best_objective :: pyval
  max_objective :: "real option"
  temp :: real
  n_samples :: int
  points_to_evaluate :: "'s list"
  current_objective :: pyval
  evaluated :: "real list"

text \<open>An object as the constructor leaves it, for a temperature and a target that
  are finite floats. The attributes the constructor does not assign keep the defaults
  of the class (\<open>current_objective\<close> does not exist before the first run and is shown
  as \<open>None\<close>).\<close>

definition new_shc :: "'s \<Rightarrow> real \<Rightarrow> int \<Rightarrow> real option \<Rightarrow> int \<Rightarrow> 's list \<Rightarrow> 's shc" where
  "new_shc initial_state' temp' max_steps' max_objective' n_samples' points_to_evaluate' =
     \<lparr>initial_state = initial_state',
      current_state = None,
      best_state = None,
      cur_steps = 0,
      max_steps = max_steps',
      best_objective = NegInf,
      max_objective = max_objective',
      temp = temp',
      n_samples = n_samples',
      points_to_evaluate = points_to_evaluate',
      current_objective = PyNone,
      evaluated = []\<rparr>"

text \<open>\<open>_clear\<close>.\<close>

definition clear :: "'s shc \<Rightarrow> 's shc" where
  "clear e = e\<lparr>cur_steps := 0, current_state := None, best_state := None,
                best_objective := NegInf, evaluated := []\<rparr>"

text \<open>\<open>deepcopy\<close> of a value is that value.\<close>

definition deepcopy :: "'a \<Rightarrow> 'a" where
  "deepcopy x = x"

text \<open>\<open>_accept_neighbor\<close>, in iteration \<open>k\<close>. A zero temperature makes the division
  raise, which the \<open>except OverflowError\<close> clause does not catch.\<close>

definition accept_neighbor :: "'s problem \<Rightarrow> nat \<Rightarrow> 's shc \<Rightarrow> 's \<Rightarrow> error + bool" where
  "accept_neighbor pm k e nb =
     (let oc = objective pm (current_state e);
          on = objective pm (Some nb)
      in if temp e = 0 then Inl ZeroDivisionError
         else let x = - (oc - on) / temp e
              in if exp_overflows x then Inr True
                 else let p = exp x
                      in Inr (if p \<ge> 1 then True else p \<ge> uniform pm k))"

text \<open>The body of both seeding loops (lines 133-137 and 141-145): make \<open>st\<close> the current
  state, evaluate it, and record it as the best when it is strictly better.\<close>

definition seed_step :: "'s problem \<Rightarrow> 's \<Rightarrow> 's shc \<Rightarrow> error + 's shc" where
  "seed_step pm st e =
     (let e1 = e\<lparr>current_state := Some st\<rparr>;
          v = objective pm (current_state e1);
          e2 = e1\<lparr>current_objective := Num v, evaluated := v # evaluated e1\<rparr>
      in case py_gt (current_objective e2) (best_objective e2) of
           Inl err \<Rightarrow> Inl err
         | Inr better \<Rightarrow>
             Inr (if better
                  then e2\<lparr>best_state := current_state e2,
                          best_objective := current_objective e2\<rparr>
                  else e2))"

text \<open>\<open>for point in self.points_to_evaluate\<close>.\<close>

fun eval_points :: "'s problem \<Rightarrow> 's list \<Rightarrow> 's shc \<Rightarrow> error + 's shc" where
  "eval_points pm [] e = Inr e"
| "eval_points pm (point # points) e =
     (case seed_step pm point e of
        Inl err \<Rightarrow> Inl err
      | Inr e' \<Rightarrow> eval_points pm points e')"

text \<open>\<open>while n < self.n_samples\<close>.\<close>

function sample_loop :: "'s problem \<Rightarrow> int \<Rightarrow> 's shc \<Rightarrow> error + 's shc" where
  "sample_loop pm n e =
     (if n < n_samples e
      then (case seed_step pm (random_state pm (nat n)) e of
              Inl err \<Rightarrow> Inl err
            | Inr e' \<Rightarrow> sample_loop pm (n + 1) e')
      else Inr e)"
  by pat_completeness auto

lemma seed_step_n_samples: "seed_step pm st e = Inr e' \<Longrightarrow> n_samples e' = n_samples e"
  by (auto simp: seed_step_def Let_def split: sum.splits if_splits)

termination sample_loop
  by (relation "measure (\<lambda>(pm, n, e). nat (n_samples e - n))")
     (auto dest: seed_step_n_samples)

declare sample_loop.simps [simp del]

text \<open>The seeding phase (lines 131-149).\<close>

definition seeding :: "'s problem \<Rightarrow> 's shc \<Rightarrow> error + 's shc" where
  "seeding pm e =
     (if length (points_to_evaluate e) > 0 then eval_points pm (points_to_evaluate e) e
      else if n_samples e > 1 then sample_loop pm 0 e
      else (let e1 = e\<lparr>current_state := Some (initial_state e)\<rparr>;
                v = objective pm (current_state e1)
            in Inr (e1\<lparr>best_objective := Num v, evaluated := v # evaluated e1\<rparr>)))"

text \<open>One iteration of the climbing loop, up to the test of the target (lines
  154-165). The progress report every 100 steps only prints. \<open>_objective\<close> is called
  twice in \<open>_accept_neighbor\<close>, once in the test of line 163 and once more in line
  164.\<close>

definition climb_iter :: "'s problem \<Rightarrow> nat \<Rightarrow> 's shc \<Rightarrow> error + 's shc" where
  "climb_iter pm i e =
     (let e1 = e\<lparr>cur_steps := cur_steps e + 1\<rparr>;
          nb = neighbor pm i (current_state e1)
      in case accept_neighbor pm i e1 nb of
           Inl err \<Rightarrow> Inl err
         | Inr accepted \<Rightarrow>
             (let e2 = (if accepted then e1\<lparr>current_state := Some nb\<rparr> else e1);
                  oc = objective pm (current_state e2);
                  e3 = e2\<lparr>evaluated :=
                            oc # objective pm (Some nb) # objective pm (current_state e1)
                               # evaluated e2\<rparr>
              in case py_gt (Num oc) (py_or0 (best_objective e3)) of
                   Inl err \<Rightarrow> Inl err
                 | Inr better \<Rightarrow>
                     Inr (if better
                          then e3\<lparr>best_objective := Num (objective pm (current_state e3)),
                                  evaluated := objective pm (current_state e3) # evaluated e3,
                                  best_state := deepcopy (current_state e3)\<rparr>
                          else e3)))"

text \<open>The test of line 167.\<close>

definition target_exceeded :: "'s shc \<Rightarrow> error + bool" where
  "target_exceeded e =
     (case max_objective e of
        None \<Rightarrow> Inr False
      | Some m \<Rightarrow> py_gt (py_or0 (best_objective e)) (Num m))"

text \<open>How a run ends: the message it prints before it returns.\<close>

datatype outcome = ReachedMaximumObjective | ReachedMaximumSteps

text \<open>\<open>for i in range(...)\<close>, over the list of the values of \<open>i\<close>.\<close>

fun climb :: "'s problem \<Rightarrow> nat list \<Rightarrow> 's shc \<Rightarrow> error + ('s shc \<times> outcome)" where
  "climb pm [] e = Inr (e, ReachedMaximumSteps)"
| "climb pm (i # is) e =
     (case climb_iter pm i e of
        Inl err \<Rightarrow> Inl err
      | Inr e' \<Rightarrow>
          (case target_exceeded e' of
             Inl err \<Rightarrow> Inl err
           | Inr stop \<Rightarrow>
               if stop then Inr (e', ReachedMaximumObjective) else climb pm is e'))"

text \<open>\<open>range(n)\<close>, empty when \<open>n \<le> 0\<close>.\<close>

definition py_range :: "int \<Rightarrow> nat list" where
  "py_range n = [0 ..< nat n]"

definition remaining :: "'s shc \<Rightarrow> int" where
  "remaining e = max_steps e - n_samples e - int (length (points_to_evaluate e))"

text \<open>\<open>run\<close>: the object as it is left, and how the run ended. The pair it returns is
  \<open>returned\<close> of that object.\<close>

definition run :: "'s problem \<Rightarrow> 's shc \<Rightarrow> error + ('s shc \<times> outcome)" where
  "run pm e0 =
     (let e1 = clear e0;
          e2 = e1\<lparr>current_objective := best_objective e1\<rparr>
      in case seeding pm e2 of
           Inl err \<Rightarrow> Inl err
         | Inr e3 \<Rightarrow> climb pm (py_range (remaining e3)) e3)"

definition returned :: "'s shc \<Rightarrow> 's option \<times> pyval" where
  "returned e = (best_state e, best_objective e)"

subsection \<open>The engine over a store of objects\<close>

text \<open>
  C8 is about which object \<open>best_state\<close> refers to, so here the states are objects in
  a store: an attribute holds the address of an object, an assignment copies the
  address, \<open>deepcopy\<close> allocates a new object with the same content, and mutating an
  object changes what every reference to it sees. The problem model is the same: its
  operations read and build the contents; a neighbour and a random state are new
  objects. The functions below are the methods above, read this way (the log
  \<open>evaluated\<close> is left alone).
\<close>

type_synonym ref = nat

type_synonym 'v heap = "'v list"

definition deref :: "'v heap \<Rightarrow> ref option \<Rightarrow> 'v option" where
  "deref h r = (case r of None \<Rightarrow> None
                | Some a \<Rightarrow> if a < length h then Some (h ! a) else None)"

definition alloc :: "'v \<Rightarrow> 'v heap \<Rightarrow> ref \<times> 'v heap" where
  "alloc v h = (length h, h @ [v])"

text \<open>A later mutation of the object at \<open>a\<close>, by whoever holds a reference to it.\<close>

definition mutate :: "ref \<Rightarrow> 'v \<Rightarrow> 'v heap \<Rightarrow> 'v heap" where
  "mutate a v h = h[a := v]"

text \<open>\<open>deepcopy(x)\<close>: \<open>None\<close> for \<open>None\<close>, else a new object with the content of \<open>x\<close>.\<close>

definition deepcopy_ref :: "ref option \<Rightarrow> 'v heap \<Rightarrow> ref option \<times> 'v heap" where
  "deepcopy_ref r h =
     (case deref h r of
        None \<Rightarrow> (None, h)
      | Some v \<Rightarrow> (let (a, h') = alloc v h in (Some a, h')))"

definition accept_neighbor_ref ::
  "'v problem \<Rightarrow> nat \<Rightarrow> ref shc \<times> 'v heap \<Rightarrow> ref \<Rightarrow> error + bool" where
  "accept_neighbor_ref pm k eh nb =
     (let e = fst eh; h = snd eh;
          oc = objective pm (deref h (current_state e));
          on = objective pm (deref h (Some nb))
      in if temp e = 0 then Inl ZeroDivisionError
         else let x = - (oc - on) / temp e
              in if exp_overflows x then Inr True
                 else let p = exp x
                      in Inr (if p \<ge> 1 then True else p \<ge> uniform pm k))"

text \<open>Lines 133-137 and 141-145: \<open>self.best_state = self.current_state\<close> stores the
  reference that \<open>current_state\<close> holds.\<close>

definition seed_step_ref ::
  "'v problem \<Rightarrow> ref \<Rightarrow> ref shc \<times> 'v heap \<Rightarrow> error + (ref shc \<times> 'v heap)" where
  "seed_step_ref pm st eh =
     (let e = fst eh; h = snd eh;
          e1 = e\<lparr>current_state := Some st\<rparr>;
          v = objective pm (deref h (current_state e1));
          e2 = e1\<lparr>current_objective := Num v\<rparr>
      in case py_gt (current_objective e2) (best_objective e2) of
           Inl err \<Rightarrow> Inl err
         | Inr better \<Rightarrow>
             Inr (if better
                  then e2\<lparr>best_state := current_state e2,
                          best_objective := current_objective e2\<rparr>
                  else e2, h))"

fun eval_points_ref ::
  "'v problem \<Rightarrow> ref list \<Rightarrow> ref shc \<times> 'v heap \<Rightarrow> error + (ref shc \<times> 'v heap)" where
  "eval_points_ref pm [] eh = Inr eh"
| "eval_points_ref pm (point # points) eh =
     (case seed_step_ref pm point eh of
        Inl err \<Rightarrow> Inl err
      | Inr eh' \<Rightarrow> eval_points_ref pm points eh')"

function sample_loop_ref ::
  "'v problem \<Rightarrow> int \<Rightarrow> ref shc \<times> 'v heap \<Rightarrow> error + (ref shc \<times> 'v heap)" where
  "sample_loop_ref pm n eh =
     (if n < n_samples (fst eh)
      then (let (a, h1) = alloc (random_state pm (nat n)) (snd eh)
            in case seed_step_ref pm a (fst eh, h1) of
                 Inl err \<Rightarrow> Inl err
               | Inr eh' \<Rightarrow> sample_loop_ref pm (n + 1) eh')
      else Inr eh)"
  by pat_completeness auto

lemma seed_step_ref_n_samples:
  "seed_step_ref pm st eh = Inr eh' \<Longrightarrow> n_samples (fst eh') = n_samples (fst eh)"
  by (auto simp: seed_step_ref_def Let_def split: sum.splits if_splits)

termination sample_loop_ref
  by (relation "measure (\<lambda>(pm, n, eh). nat (n_samples (fst eh) - n))")
     (auto simp: alloc_def dest: seed_step_ref_n_samples)

declare sample_loop_ref.simps [simp del]

definition seeding_ref ::
  "'v problem \<Rightarrow> ref shc \<times> 'v heap \<Rightarrow> error + (ref shc \<times> 'v heap)" where
  "seeding_ref pm eh =
     (let e = fst eh; h = snd eh
      in if length (points_to_evaluate e) > 0 then eval_points_ref pm (points_to_evaluate e) eh
         else if n_samples e > 1 then sample_loop_ref pm 0 eh
         else (let e1 = e\<lparr>current_state := Some (initial_state e)\<rparr>;
                   v = objective pm (deref h (current_state e1))
               in Inr (e1\<lparr>best_objective := Num v\<rparr>, h)))"

text \<open>Lines 154-165: \<open>self.current_state = neighbor\<close> stores the reference to the
  neighbour; \<open>self.best_state = deepcopy(self.current_state)\<close> stores the reference to
  a new object.\<close>

definition climb_iter_ref ::
  "'v problem \<Rightarrow> nat \<Rightarrow> ref shc \<times> 'v heap \<Rightarrow> error + (ref shc \<times> 'v heap)" where
  "climb_iter_ref pm i eh =
     (let e = fst eh; h = snd eh;
          e1 = e\<lparr>cur_steps := cur_steps e + 1\<rparr>;
          (nb, h1) = alloc (neighbor pm i (deref h (current_state e1))) h
      in case accept_neighbor_ref pm i (e1, h1) nb of
           Inl err \<Rightarrow> Inl err
         | Inr accepted \<Rightarrow>
             (let e2 = (if accepted then e1\<lparr>current_state := Some nb\<rparr> else e1);
                  oc = objective pm (deref h1 (current_state e2))
              in case py_gt (Num oc) (py_or0 (best_objective e2)) of
                   Inl err \<Rightarrow> Inl err
                 | Inr better \<Rightarrow>
                     Inr (if better
                          then (let (c, h2) = deepcopy_ref (current_state e2) h1
                                in (e2\<lparr>best_objective := Num oc, best_state := c\<rparr>, h2))
                          else (e2, h1))))"

fun climb_ref ::
  "'v problem \<Rightarrow> nat list \<Rightarrow> ref shc \<times> 'v heap
     \<Rightarrow> error + ((ref shc \<times> 'v heap) \<times> outcome)" where
  "climb_ref pm [] eh = Inr (eh, ReachedMaximumSteps)"
| "climb_ref pm (i # is) eh =
     (case climb_iter_ref pm i eh of
        Inl err \<Rightarrow> Inl err
      | Inr eh' \<Rightarrow>
          (case target_exceeded (fst eh') of
             Inl err \<Rightarrow> Inl err
           | Inr stop \<Rightarrow>
               if stop then Inr (eh', ReachedMaximumObjective) else climb_ref pm is eh'))"

definition run_ref ::
  "'v problem \<Rightarrow> ref shc \<times> 'v heap \<Rightarrow> error + ((ref shc \<times> 'v heap) \<times> outcome)" where
  "run_ref pm eh0 =
     (let e1 = clear (fst eh0);
          e2 = e1\<lparr>current_objective := best_objective e1\<rparr>
      in case seeding_ref pm (e2, snd eh0) of
           Inl err \<Rightarrow> Inl err
         | Inr eh3 \<Rightarrow> climb_ref pm (py_range (remaining (fst eh3))) eh3)"

subsection \<open>The states a run passes through\<close>

text \<open>The object after each pass through the body of a loop of \<open>run\<close>, in order:
  these are the points at which the claims about "every evaluation point" are read.\<close>

fun eval_points_trace :: "'s problem \<Rightarrow> 's list \<Rightarrow> 's shc \<Rightarrow> 's shc list" where
  "eval_points_trace pm [] e = []"
| "eval_points_trace pm (point # points) e =
     (case seed_step pm point e of
        Inl err \<Rightarrow> []
      | Inr e' \<Rightarrow> e' # eval_points_trace pm points e')"

function sample_loop_trace :: "'s problem \<Rightarrow> int \<Rightarrow> 's shc \<Rightarrow> 's shc list" where
  "sample_loop_trace pm n e =
     (if n < n_samples e
      then (case seed_step pm (random_state pm (nat n)) e of
              Inl err \<Rightarrow> []
            | Inr e' \<Rightarrow> e' # sample_loop_trace pm (n + 1) e')
      else [])"
  by pat_completeness auto
termination
  by (relation "measure (\<lambda>(pm, n, e). nat (n_samples e - n))")
     (auto dest: seed_step_n_samples)

declare sample_loop_trace.simps [simp del]

definition seeding_trace :: "'s problem \<Rightarrow> 's shc \<Rightarrow> 's shc list" where
  "seeding_trace pm e =
     (if length (points_to_evaluate e) > 0 then eval_points_trace pm (points_to_evaluate e) e
      else if n_samples e > 1 then sample_loop_trace pm 0 e
      else (case seeding pm e of Inl err \<Rightarrow> [] | Inr e' \<Rightarrow> [e']))"

fun climb_trace :: "'s problem \<Rightarrow> nat list \<Rightarrow> 's shc \<Rightarrow> 's shc list" where
  "climb_trace pm [] e = []"
| "climb_trace pm (i # is) e =
     (case climb_iter pm i e of
        Inl err \<Rightarrow> []
      | Inr e' \<Rightarrow>
          (case target_exceeded e' of
             Inl err \<Rightarrow> [e']
           | Inr stop \<Rightarrow> if stop then [e'] else e' # climb_trace pm is e'))"

text \<open>The states at which the body of the climbing loop is entered or left.\<close>

definition climbing_states :: "'s problem \<Rightarrow> 's shc \<Rightarrow> 's shc list" where
  "climbing_states pm e0 =
     (let e2 = (clear e0)\<lparr>current_objective := best_objective (clear e0)\<rparr>
      in case seeding pm e2 of
           Inl err \<Rightarrow> []
         | Inr e3 \<Rightarrow> e3 # climb_trace pm (py_range (remaining e3)) e3)"

text \<open>All of them: the object as \<open>run\<close> starts, after each seeding evaluation, and
  after each climbing iteration.\<close>

definition run_trace :: "'s problem \<Rightarrow> 's shc \<Rightarrow> 's shc list" where
  "run_trace pm e0 =
     (let e2 = (clear e0)\<lparr>current_objective := best_objective (clear e0)\<rparr>
      in e2 # seeding_trace pm e2 @
         (case seeding pm e2 of
            Inl err \<Rightarrow> []
          | Inr e3 \<Rightarrow> climb_trace pm (py_range (remaining e3)) e3))"

text \<open>The order on what \<open>best_objective\<close> holds, and the greatest of a list of
  evaluated objective values (\<open>float('-inf')\<close> when nothing was evaluated).\<close>

fun py_le :: "pyval \<Rightarrow> pyval \<Rightarrow> bool" where
  "py_le NegInf NegInf = True"
| "py_le NegInf (Num y) = True"
| "py_le (Num x) (Num y) = (x \<le> y)"
| "py_le a b = False"

fun max_seen :: "real list \<Rightarrow> pyval" where
  "max_seen [] = NegInf"
| "max_seen (v # vs) = (case max_seen vs of Num m \<Rightarrow> Num (max v m) | b \<Rightarrow> Num v)"

subsection \<open>A problem model to run\<close>

text \<open>States are integers, the objective of a state is its value, a neighbour is two
  to the right, and \<open>random()\<close> draws 9/10.\<close>

definition line_problem :: "int problem" where
  "line_problem =
     \<lparr>objective = (\<lambda>s. case s of None \<Rightarrow> 0 | Some x \<Rightarrow> real_of_int x),
      neighbor = (\<lambda>k s. case s of None \<Rightarrow> 0 | Some x \<Rightarrow> x + 2),
      random_state = (\<lambda>k. int k),
      uniform = (\<lambda>k. 9 / 10)\<rparr>"

text \<open>The same, with the neighbour one to the left.\<close>

definition descent_problem :: "int problem" where
  "descent_problem = line_problem\<lparr>neighbor := (\<lambda>k s. case s of None \<Rightarrow> 0 | Some x \<Rightarrow> x - 1)\<rparr>"

subsection \<open>Predicates of the properties\<close>

text \<open>\<open>best_le a b\<close>: the best objective of \<open>a\<close> is at most that of \<open>b\<close>.
  \<open>best_is_max\<close>: the best objective is the greatest value evaluated so far.
  \<open>current_le_best\<close>: the objective of the current state is at most the best one.
  \<open>same_config\<close>: two objects agree on what the constructor stored.\<close>

definition best_le :: "'s shc \<Rightarrow> 's shc \<Rightarrow> bool" where
  "best_le a b \<longleftrightarrow> py_le (best_objective a) (best_objective b)"

definition best_is_max :: "'s shc \<Rightarrow> bool" where
  "best_is_max e \<longleftrightarrow> best_objective e = max_seen (evaluated e)"

definition current_le_best :: "'s problem \<Rightarrow> 's shc \<Rightarrow> bool" where
  "current_le_best pm e \<longleftrightarrow> py_le (Num (objective pm (current_state e))) (best_objective e)"

definition same_config :: "'s shc \<Rightarrow> 's shc \<Rightarrow> bool" where
  "same_config e e' \<longleftrightarrow>
     max_steps e' = max_steps e \<and> n_samples e' = n_samples e
     \<and> points_to_evaluate e' = points_to_evaluate e \<and> temp e' = temp e
     \<and> max_objective e' = max_objective e \<and> initial_state e' = initial_state e"

definition best_known :: "'s shc \<Rightarrow> bool" where
  "best_known e \<longleftrightarrow>
     best_objective e = NegInf \<or> (\<exists>v\<in>set (evaluated e). best_objective e = Num v)"

definition best_is_objective :: "'s problem \<Rightarrow> 's shc \<Rightarrow> bool" where
  "best_is_objective pm e \<longleftrightarrow>
     best_objective e = NegInf \<or> (\<exists>s. best_objective e = Num (objective pm s))"

text \<open>\<open>best_state_agrees\<close>: a best state that is set has the best objective.\<close>

definition best_state_agrees :: "'s problem \<Rightarrow> 's shc \<Rightarrow> bool" where
  "best_state_agrees pm e \<longleftrightarrow>
     best_state e = None \<or> best_objective e = Num (objective pm (best_state e))"

text \<open>The two tests of the climbing loop as C10 reads them, on \<open>best_objective\<close> itself,
  without the fallback to 0: the body of the loop and the test of the target.\<close>

definition climb_iter_direct :: "'s problem \<Rightarrow> nat \<Rightarrow> 's shc \<Rightarrow> error + 's shc" where
  "climb_iter_direct pm i e =
     (let e1 = e\<lparr>cur_steps := cur_steps e + 1\<rparr>;
          nb = neighbor pm i (current_state e1)
      in case accept_neighbor pm i e1 nb of
           Inl err \<Rightarrow> Inl err
         | Inr accepted \<Rightarrow>
             (let e2 = (if accepted then e1\<lparr>current_state := Some nb\<rparr> else e1);
                  oc = objective pm (current_state e2);
                  e3 = e2\<lparr>evaluated :=
                            oc # objective pm (Some nb) # objective pm (current_state e1)
                               # evaluated e2\<rparr>
              in case py_gt (Num oc) (best_objective e3) of
                   Inl err \<Rightarrow> Inl err
                 | Inr better \<Rightarrow>
                     Inr (if better
                          then e3\<lparr>best_objective := Num (objective pm (current_state e3)),
                                  evaluated := objective pm (current_state e3) # evaluated e3,
                                  best_state := deepcopy (current_state e3)\<rparr>
                          else e3)))"

definition target_exceeded_direct :: "'s shc \<Rightarrow> error + bool" where
  "target_exceeded_direct e =
     (case max_objective e of
        None \<Rightarrow> Inr False
      | Some m \<Rightarrow> py_gt (best_objective e) (Num m))"

section \<open>The engine over all Python numbers, with exceptions\<close>

text \<open>
  The model above is the engine for a problem model that returns normally and whose
  objective values are finite floats. Here the same methods are embedded once more
  without these restrictions: \<open>_objective\<close> returns an \<open>int\<close> of any size or a \<open>float\<close>,
  the infinities and NaN included; every operation of the problem model, and printing
  and copying a state, may raise; the constructor converts its arguments with
  \<open>float\<close>; and the progress report of \<open>run\<close> is part of the loop. Finite floats are
  still idealised as reals in \<open>-\<close>, \<open>/\<close> and \<open>exp\<close>; the conversion of an \<open>int\<close> to a
  \<open>float\<close> rounds and overflows as Python's does.
\<close>

subsection \<open>Python numbers\<close>

datatype pyfloat = FloatV real | FloatInf | FloatNegInf | FloatNaN

datatype pynum = IntNum int | FloatNum pyfloat

text \<open>\<open>float(n)\<close> for an \<open>int\<close>: \<open>OverflowError\<close> from \<open>2 ^ 1024 - 2 ^ 970\<close> on, where
  rounding would pass the largest double; else the nearest double, ties to even.\<close>

definition int_too_large :: "int \<Rightarrow> bool" where
  "int_too_large n \<longleftrightarrow> 2 ^ 1024 - 2 ^ 970 \<le> \<bar>n\<bar>"

definition round53 :: "nat \<Rightarrow> nat" where
  "round53 a =
     (if a < 2 ^ 53 then a
      else let k = floorlog 2 a - 53; q = a div 2 ^ k; r = a mod 2 ^ k
           in (if 2 ^ k < 2 * r \<or> (2 * r = 2 ^ k \<and> odd q) then q + 1 else q) * 2 ^ k)"

definition float_of_int :: "int \<Rightarrow> error + pyfloat" where
  "float_of_int n =
     (if int_too_large n then Inl OverflowError
      else Inr (FloatV (if n < 0 then - real (round53 (nat (- n)))
                        else real (round53 (nat n)))))"

fun float_of_num :: "pynum \<Rightarrow> error + pyfloat" where
  "float_of_num (IntNum n) = float_of_int n"
| "float_of_num (FloatNum f) = Inr f"

fun fl_neg :: "pyfloat \<Rightarrow> pyfloat" where
  "fl_neg (FloatV x) = FloatV (- x)"
| "fl_neg FloatInf = FloatNegInf"
| "fl_neg FloatNegInf = FloatInf"
| "fl_neg FloatNaN = FloatNaN"

fun fl_sub :: "pyfloat \<Rightarrow> pyfloat \<Rightarrow> pyfloat" where
  "fl_sub FloatNaN b = FloatNaN"
| "fl_sub a FloatNaN = FloatNaN"
| "fl_sub FloatInf FloatInf = FloatNaN"
| "fl_sub FloatInf b = FloatInf"
| "fl_sub FloatNegInf FloatNegInf = FloatNaN"
| "fl_sub FloatNegInf b = FloatNegInf"
| "fl_sub (FloatV x) FloatInf = FloatNegInf"
| "fl_sub (FloatV x) FloatNegInf = FloatInf"
| "fl_sub (FloatV x) (FloatV y) = FloatV (x - y)"

text \<open>\<open>a / t\<close> on floats: only a zero divisor raises.\<close>

fun fl_div :: "pyfloat \<Rightarrow> pyfloat \<Rightarrow> error + pyfloat" where
  "fl_div a (FloatV t) =
     (if t = 0 then Inl ZeroDivisionError
      else Inr (case a of
                  FloatV x \<Rightarrow> FloatV (x / t)
                | FloatInf \<Rightarrow> if 0 < t then FloatInf else FloatNegInf
                | FloatNegInf \<Rightarrow> if 0 < t then FloatNegInf else FloatInf
                | FloatNaN \<Rightarrow> FloatNaN))"
| "fl_div a FloatNaN = Inr FloatNaN"
| "fl_div (FloatV x) t = Inr (FloatV 0)"
| "fl_div a t = Inr FloatNaN"

text \<open>\<open>math.exp\<close>: \<open>OverflowError\<close> on a finite argument whose result is beyond the
  doubles; \<open>exp(inf)\<close> is \<open>inf\<close>.\<close>

fun fl_exp :: "pyfloat \<Rightarrow> error + pyfloat" where
  "fl_exp (FloatV x) = (if exp_overflows x then Inl OverflowError else Inr (FloatV (exp x)))"
| "fl_exp FloatInf = Inr FloatInf"
| "fl_exp FloatNegInf = Inr (FloatV 0)"
| "fl_exp FloatNaN = Inr FloatNaN"

fun fl_ge :: "pyfloat \<Rightarrow> pyfloat \<Rightarrow> bool" where
  "fl_ge FloatNaN b = False"
| "fl_ge a FloatNaN = False"
| "fl_ge FloatInf b = True"
| "fl_ge a FloatNegInf = True"
| "fl_ge FloatNegInf b = False"
| "fl_ge (FloatV x) FloatInf = False"
| "fl_ge (FloatV x) (FloatV y) = (x \<ge> y)"

fun fl_gt :: "pyfloat \<Rightarrow> pyfloat \<Rightarrow> bool" where
  "fl_gt FloatNaN b = False"
| "fl_gt a FloatNaN = False"
| "fl_gt a FloatInf = False"
| "fl_gt FloatInf b = True"
| "fl_gt FloatNegInf b = False"
| "fl_gt (FloatV x) FloatNegInf = True"
| "fl_gt (FloatV x) (FloatV y) = (x > y)"

text \<open>\<open>a - b\<close>: exact on two ints, else both are converted to \<open>float\<close>. \<open>- a\<close>. \<open>a / t\<close>
  for a float \<open>t\<close>. Comparisons of an \<open>int\<close> with a \<open>float\<close> are exact.\<close>

fun num_sub :: "pynum \<Rightarrow> pynum \<Rightarrow> error + pynum" where
  "num_sub (IntNum x) (IntNum y) = Inr (IntNum (x - y))"
| "num_sub a b =
     (case float_of_num a of
        Inl err \<Rightarrow> Inl err
      | Inr fa \<Rightarrow> (case float_of_num b of
                     Inl err \<Rightarrow> Inl err
                   | Inr fb \<Rightarrow> Inr (FloatNum (fl_sub fa fb))))"

fun num_neg :: "pynum \<Rightarrow> pynum" where
  "num_neg (IntNum x) = IntNum (- x)"
| "num_neg (FloatNum f) = FloatNum (fl_neg f)"

definition num_div_float :: "pynum \<Rightarrow> pyfloat \<Rightarrow> error + pyfloat" where
  "num_div_float a t =
     (case float_of_num a of Inl err \<Rightarrow> Inl err | Inr fa \<Rightarrow> fl_div fa t)"

fun exact :: "pynum \<Rightarrow> pyfloat" where
  "exact (IntNum n) = FloatV (real_of_int n)"
| "exact (FloatNum f) = f"

definition num_gt :: "pynum \<Rightarrow> pynum \<Rightarrow> bool" where
  "num_gt a b = fl_gt (exact a) (exact b)"

definition num_le :: "pynum \<Rightarrow> pynum \<Rightarrow> bool" where
  "num_le a b = fl_ge (exact b) (exact a)"

text \<open>What \<open>best_objective\<close> and \<open>current_objective\<close> hold: \<open>None\<close> or a number; \<open>a > b\<close>
  and \<open>a or 0\<close> on these.\<close>

datatype pyobj = ObjNone | ObjNum pynum

fun obj_gt :: "pyobj \<Rightarrow> pyobj \<Rightarrow> error + bool" where
  "obj_gt (ObjNum a) (ObjNum b) = Inr (num_gt a b)"
| "obj_gt a b = Inl TypeError"

fun obj_or0 :: "pyobj \<Rightarrow> pyobj" where
  "obj_or0 ObjNone = ObjNum (IntNum 0)"
| "obj_or0 (ObjNum (IntNum n)) = (if n = 0 then ObjNum (IntNum 0) else ObjNum (IntNum n))"
| "obj_or0 (ObjNum (FloatNum (FloatV x))) =
     (if x = 0 then ObjNum (IntNum 0) else ObjNum (FloatNum (FloatV x)))"
| "obj_or0 (ObjNum (FloatNum f)) = ObjNum (FloatNum f)"

subsection \<open>The constructor\<close>

text \<open>Arguments of the constructor, as far as \<open>isinstance\<close> tells them apart
  (\<open>bool\<close> is a subclass of \<open>int\<close>).\<close>

datatype pyarg = ArgNone | ArgBool bool | ArgInt int | ArgFloat pyfloat | ArgStr string

fun is_int :: "pyarg \<Rightarrow> bool" where
  "is_int (ArgBool b) = True"
| "is_int (ArgInt n) = True"
| "is_int a = False"

fun is_float_or_int :: "pyarg \<Rightarrow> bool" where
  "is_float_or_int (ArgFloat x) = True"
| "is_float_or_int a = is_int a"

fun to_int :: "pyarg \<Rightarrow> int" where
  "to_int (ArgBool b) = (if b then 1 else 0)"
| "to_int (ArgInt n) = n"
| "to_int a = 0"

text \<open>\<open>float(a)\<close>, which the constructor calls on an \<open>int\<close> or a \<open>float\<close> only.\<close>

fun to_float :: "pyarg \<Rightarrow> error + pyfloat" where
  "to_float (ArgBool b) = Inr (FloatV (if b then 1 else 0))"
| "to_float (ArgInt n) = float_of_int n"
| "to_float (ArgFloat x) = Inr x"
| "to_float a = Inl TypeError"

text \<open>An \<open>int\<close> argument that \<open>float\<close> cannot convert (a \<open>bool\<close> never is).\<close>

fun arg_too_large :: "pyarg \<Rightarrow> bool" where
  "arg_too_large (ArgInt n) = int_too_large n"
| "arg_too_large a = False"

text \<open>The attributes of the object.\<close>

record 's shc_py =
  initial_state_py :: 's
  current_state_py :: "'s option"
  best_state_py :: "'s option"
  cur_steps_py :: int
  max_steps_py :: int
  best_objective_py :: pyobj
  max_objective_py :: "pyfloat option"
  temp_py :: pyfloat
  n_samples_py :: int
  points_to_evaluate_py :: "'s list"
  current_objective_py :: pyobj

text \<open>The object a successful \<open>__init__\<close> leaves: the attributes it does not assign keep
  the defaults of the class.\<close>

definition new_shc_py ::
  "'s \<Rightarrow> pyfloat \<Rightarrow> int \<Rightarrow> pyfloat option \<Rightarrow> int \<Rightarrow> 's list \<Rightarrow> 's shc_py" where
  "new_shc_py initial_state' temp' max_steps' max_objective' n_samples' points_to_evaluate' =
     \<lparr>initial_state_py = initial_state',
      current_state_py = None,
      best_state_py = None,
      cur_steps_py = 0,
      max_steps_py = max_steps',
      best_objective_py = ObjNum (FloatNum FloatNegInf),
      max_objective_py = max_objective',
      temp_py = temp',
      n_samples_py = n_samples',
      points_to_evaluate_py = points_to_evaluate',
      current_objective_py = ObjNone\<rparr>"

text \<open>\<open>__init__\<close>, with its checks and conversions in the order of the source.\<close>

definition init ::
  "'s \<Rightarrow> pyarg \<Rightarrow> pyarg \<Rightarrow> pyarg \<Rightarrow> int \<Rightarrow> 's list \<Rightarrow> error + 's shc_py" where
  "init initial_state' temp' max_steps' max_objective' n_samples' points_to_evaluate' =
     (if \<not> (is_int max_steps' \<and> to_int max_steps' > 0)
      then Inl (ValueError ''Max steps must be a positive integer'')
      else case (if max_objective' \<noteq> ArgNone
                 then (if is_float_or_int max_objective'
                       then (case to_float max_objective' of
                               Inl err \<Rightarrow> Inl err
                             | Inr m \<Rightarrow> Inr (Some m))
                       else Inl (ValueError ''Maximum objective must be a numeric type''))
                 else Inr None) of
             Inl err \<Rightarrow> Inl err
           | Inr mo \<Rightarrow>
               (if is_float_or_int temp'
                then (case to_float temp' of
                        Inl err \<Rightarrow> Inl err
                      | Inr t \<Rightarrow>
                          Inr (new_shc_py initial_state' t (to_int max_steps') mo
                                 n_samples' points_to_evaluate'))
                else Inl (ValueError ''Temperature must be a numeric type'')))"

subsection \<open>The problem model and the methods\<close>

text \<open>The three abstract methods, \<open>random()\<close>, and \<open>str\<close> and \<open>deepcopy\<close> of a state, each
  of which may raise.\<close>

record 's problem_py =
  objective_py :: "'s option \<Rightarrow> error + pynum"
  neighbor_py :: "nat \<Rightarrow> 's option \<Rightarrow> error + 's"
  random_py :: "nat \<Rightarrow> error + 's"
  uniform_py :: "nat \<Rightarrow> real"
  str_py :: "'s \<Rightarrow> error + string"
  deepcopy_py :: "'s \<Rightarrow> error + 's"

definition clear_py :: "'s shc_py \<Rightarrow> 's shc_py" where
  "clear_py e = e\<lparr>cur_steps_py := 0, current_state_py := None, best_state_py := None,
                   best_objective_py := ObjNum (FloatNum FloatNegInf)\<rparr>"

text \<open>\<open>print(self)\<close>: \<open>__str__\<close> takes \<open>str(self.best_state)\<close> and then formats
  \<open>best_objective\<close> with \<open>%f\<close>, which converts an \<open>int\<close> to a \<open>float\<close>.\<close>

definition print_self :: "'s problem_py \<Rightarrow> 's shc_py \<Rightarrow> error + unit" where
  "print_self pm e =
     (case (case best_state_py e of None \<Rightarrow> Inr ''None'' | Some s \<Rightarrow> str_py pm s) of
        Inl err \<Rightarrow> Inl err
      | Inr text \<Rightarrow>
          (case best_objective_py e of
             ObjNone \<Rightarrow> Inl TypeError
           | ObjNum (IntNum n) \<Rightarrow> if int_too_large n then Inl OverflowError else Inr ()
           | ObjNum (FloatNum f) \<Rightarrow> Inr ()))"

text \<open>The expression of line 111, inside the \<open>try\<close>.\<close>

definition acceptance :: "'s problem_py \<Rightarrow> 's shc_py \<Rightarrow> 's \<Rightarrow> error + pyfloat" where
  "acceptance pm e nb =
     (case objective_py pm (current_state_py e) of
        Inl err \<Rightarrow> Inl err
      | Inr oc \<Rightarrow>
          (case objective_py pm (Some nb) of
             Inl err \<Rightarrow> Inl err
           | Inr on \<Rightarrow>
               (case num_sub oc on of
                  Inl err \<Rightarrow> Inl err
                | Inr d \<Rightarrow>
                    (case num_div_float (num_neg d) (temp_py e) of
                       Inl err \<Rightarrow> Inl err
                     | Inr x \<Rightarrow> fl_exp x))))"

text \<open>\<open>_accept_neighbor\<close>: \<open>except OverflowError\<close> catches that exception wherever in
  the expression it was raised, and no other.\<close>

definition accept_neighbor_py ::
  "'s problem_py \<Rightarrow> nat \<Rightarrow> 's shc_py \<Rightarrow> 's \<Rightarrow> error + bool" where
  "accept_neighbor_py pm k e nb =
     (case acceptance pm e nb of
        Inl err \<Rightarrow> if err = OverflowError then Inr True else Inl err
      | Inr p \<Rightarrow>
          Inr (if fl_ge p (FloatV 1) then True else fl_ge p (FloatV (uniform_py pm k))))"

definition seed_step_py :: "'s problem_py \<Rightarrow> 's \<Rightarrow> 's shc_py \<Rightarrow> error + 's shc_py" where
  "seed_step_py pm st e =
     (let e1 = e\<lparr>current_state_py := Some st\<rparr>
      in case objective_py pm (current_state_py e1) of
           Inl err \<Rightarrow> Inl err
         | Inr v \<Rightarrow>
             (let e2 = e1\<lparr>current_objective_py := ObjNum v\<rparr>
              in case obj_gt (current_objective_py e2) (best_objective_py e2) of
                   Inl err \<Rightarrow> Inl err
                 | Inr better \<Rightarrow>
                     Inr (if better
                          then e2\<lparr>best_state_py := current_state_py e2,
                                  best_objective_py := current_objective_py e2\<rparr>
                          else e2)))"

fun eval_points_py :: "'s problem_py \<Rightarrow> 's list \<Rightarrow> 's shc_py \<Rightarrow> error + 's shc_py" where
  "eval_points_py pm [] e = Inr e"
| "eval_points_py pm (point # points) e =
     (case seed_step_py pm point e of
        Inl err \<Rightarrow> Inl err
      | Inr e' \<Rightarrow> eval_points_py pm points e')"

function sample_loop_py :: "'s problem_py \<Rightarrow> int \<Rightarrow> 's shc_py \<Rightarrow> error + 's shc_py" where
  "sample_loop_py pm n e =
     (if n < n_samples_py e
      then (case random_py pm (nat n) of
              Inl err \<Rightarrow> Inl err
            | Inr st \<Rightarrow>
                (case seed_step_py pm st e of
                   Inl err \<Rightarrow> Inl err
                 | Inr e' \<Rightarrow> sample_loop_py pm (n + 1) e'))
      else Inr e)"
  by pat_completeness auto

lemma seed_step_py_n_samples:
  "seed_step_py pm st e = Inr e' \<Longrightarrow> n_samples_py e' = n_samples_py e"
  by (auto simp: seed_step_py_def Let_def split: sum.splits if_splits)

termination sample_loop_py
  by (relation "measure (\<lambda>(pm, n, e). nat (n_samples_py e - n))")
     (auto dest: seed_step_py_n_samples)

declare sample_loop_py.simps [simp del]

definition seeding_py :: "'s problem_py \<Rightarrow> 's shc_py \<Rightarrow> error + 's shc_py" where
  "seeding_py pm e =
     (if length (points_to_evaluate_py e) > 0
      then eval_points_py pm (points_to_evaluate_py e) e
      else if n_samples_py e > 1 then sample_loop_py pm 0 e
      else (let e1 = e\<lparr>current_state_py := Some (initial_state_py e)\<rparr>
            in case objective_py pm (current_state_py e1) of
                 Inl err \<Rightarrow> Inl err
               | Inr v \<Rightarrow> Inr (e1\<lparr>best_objective_py := ObjNum v\<rparr>)))"

text \<open>Lines 163-165: the test, the second call of \<open>_objective\<close>, and the copy.\<close>

definition record_best_py :: "'s problem_py \<Rightarrow> 's shc_py \<Rightarrow> error + 's shc_py" where
  "record_best_py pm e =
     (case objective_py pm (current_state_py e) of
        Inl err \<Rightarrow> Inl err
      | Inr oc \<Rightarrow>
          (case obj_gt (ObjNum oc) (obj_or0 (best_objective_py e)) of
             Inl err \<Rightarrow> Inl err
           | Inr better \<Rightarrow>
               if better
               then (case objective_py pm (current_state_py e) of
                       Inl err \<Rightarrow> Inl err
                     | Inr ob \<Rightarrow>
                         (case (case current_state_py e of
                                  None \<Rightarrow> Inr None
                                | Some s \<Rightarrow> (case deepcopy_py pm s of
                                              Inl err \<Rightarrow> Inl err
                                            | Inr c \<Rightarrow> Inr (Some c))) of
                            Inl err \<Rightarrow> Inl err
                          | Inr c \<Rightarrow> Inr (e\<lparr>best_objective_py := ObjNum ob,
                                             best_state_py := c\<rparr>)))
               else Inr e))"

text \<open>One iteration of the climbing loop, up to the test of the target (lines
  154-165), for the value \<open>i\<close> of the loop variable.\<close>

definition climb_iter_py ::
  "'s problem_py \<Rightarrow> bool \<Rightarrow> nat \<Rightarrow> 's shc_py \<Rightarrow> error + 's shc_py" where
  "climb_iter_py pm verbose i e =
     (let e1 = e\<lparr>cur_steps_py := cur_steps_py e + 1\<rparr>
      in case (if (int i + 1) mod 100 = 0 \<and> verbose then print_self pm e1 else Inr ()) of
           Inl err \<Rightarrow> Inl err
         | Inr u \<Rightarrow>
             (case neighbor_py pm i (current_state_py e1) of
                Inl err \<Rightarrow> Inl err
              | Inr nb \<Rightarrow>
                  (case accept_neighbor_py pm i e1 nb of
                     Inl err \<Rightarrow> Inl err
                   | Inr accepted \<Rightarrow>
                       record_best_py pm
                         (if accepted then e1\<lparr>current_state_py := Some nb\<rparr> else e1))))"

definition target_exceeded_py :: "'s shc_py \<Rightarrow> error + bool" where
  "target_exceeded_py e =
     (case max_objective_py e of
        None \<Rightarrow> Inr False
      | Some m \<Rightarrow> obj_gt (obj_or0 (best_objective_py e)) (ObjNum (FloatNum m)))"

fun climb_py ::
  "'s problem_py \<Rightarrow> bool \<Rightarrow> nat list \<Rightarrow> 's shc_py \<Rightarrow> error + ('s shc_py \<times> outcome)" where
  "climb_py pm verbose [] e = Inr (e, ReachedMaximumSteps)"
| "climb_py pm verbose (i # is) e =
     (case climb_iter_py pm verbose i e of
        Inl err \<Rightarrow> Inl err
      | Inr e' \<Rightarrow>
          (case target_exceeded_py e' of
             Inl err \<Rightarrow> Inl err
           | Inr stop \<Rightarrow>
               if stop then Inr (e', ReachedMaximumObjective)
               else climb_py pm verbose is e'))"

definition remaining_py :: "'s shc_py \<Rightarrow> int" where
  "remaining_py e =
     max_steps_py e - n_samples_py e - int (length (points_to_evaluate_py e))"

text \<open>\<open>run(verbose)\<close>.\<close>

definition run_py ::
  "'s problem_py \<Rightarrow> bool \<Rightarrow> 's shc_py \<Rightarrow> error + ('s shc_py \<times> outcome)" where
  "run_py pm verbose e0 =
     (let e1 = clear_py e0;
          e2 = e1\<lparr>current_objective_py := best_objective_py e1\<rparr>
      in case seeding_py pm e2 of
           Inl err \<Rightarrow> Inl err
         | Inr e3 \<Rightarrow> climb_py pm verbose (py_range (remaining_py e3)) e3)"

text \<open>The states after each completed iteration of the climbing loop.\<close>

fun climb_trace_py ::
  "'s problem_py \<Rightarrow> bool \<Rightarrow> nat list \<Rightarrow> 's shc_py \<Rightarrow> 's shc_py list" where
  "climb_trace_py pm verbose [] e = []"
| "climb_trace_py pm verbose (i # is) e =
     (case climb_iter_py pm verbose i e of
        Inl err \<Rightarrow> []
      | Inr e' \<Rightarrow>
          (case target_exceeded_py e' of
             Inl err \<Rightarrow> [e']
           | Inr stop \<Rightarrow> if stop then [e'] else e' # climb_trace_py pm verbose is e'))"

definition climbing_states_py :: "'s problem_py \<Rightarrow> bool \<Rightarrow> 's shc_py \<Rightarrow> 's shc_py list" where
  "climbing_states_py pm verbose e0 =
     (let e2 = (clear_py e0)\<lparr>current_objective_py := best_objective_py (clear_py e0)\<rparr>
      in case seeding_py pm e2 of
           Inl err \<Rightarrow> []
         | Inr e3 \<Rightarrow> e3 # climb_trace_py pm verbose (py_range (remaining_py e3)) e3)"

subsection \<open>Predicates and problem models for the properties\<close>

text \<open>A real that a double can hold: a 53-bit integer times or over a power of two
  (the range of the exponent is left open).\<close>

definition is_double :: "real \<Rightarrow> bool" where
  "is_double x \<longleftrightarrow>
     (\<exists>m e :: nat. m < 2 ^ 53 \<and> (\<bar>x\<bar> = real m * 2 ^ e \<or> \<bar>x\<bar> = real m / 2 ^ e))"

text \<open>An objective value that Python can hold: any \<open>int\<close>, the infinities, NaN, and
  the finite floats that are doubles.\<close>

fun representable :: "pynum \<Rightarrow> bool" where
  "representable (FloatNum (FloatV x)) = is_double x"
| "representable a = True"

definition same_infinity :: "pynum \<Rightarrow> pynum \<Rightarrow> bool" where
  "same_infinity a b \<longleftrightarrow>
     (a = FloatNum FloatInf \<and> b = FloatNum FloatInf)
     \<or> (a = FloatNum FloatNegInf \<and> b = FloatNum FloatNegInf)"

text \<open>The result of the \<open>try\<close> body that makes \<open>_accept_neighbor\<close> return \<open>True\<close>
  whatever is drawn.\<close>

definition surely_accepted :: "error + pyfloat \<Rightarrow> bool" where
  "surely_accepted r \<longleftrightarrow>
     (case r of Inl err \<Rightarrow> err = OverflowError | Inr p \<Rightarrow> fl_ge p (FloatV 1))"

text \<open>States are integers, the objective of a state is its value as an \<open>int\<close>, a
  neighbour is two to the right, and \<open>random()\<close> draws 9/10.\<close>

definition line_problem_py :: "int problem_py" where
  "line_problem_py =
     \<lparr>objective_py = (\<lambda>s. Inr (IntNum (case s of None \<Rightarrow> 0 | Some x \<Rightarrow> x))),
      neighbor_py = (\<lambda>k s. Inr (case s of None \<Rightarrow> 0 | Some x \<Rightarrow> x + 2)),
      random_py = (\<lambda>k. Inr (int k)),
      uniform_py = (\<lambda>k. 9 / 10),
      str_py = (\<lambda>s. Inr ''state''),
      deepcopy_py = (\<lambda>s. Inr s)\<rparr>"

text \<open>The same, with the neighbour one to the left.\<close>

definition descent_problem_py :: "int problem_py" where
  "descent_problem_py =
     line_problem_py\<lparr>neighbor_py := (\<lambda>k s. Inr (case s of None \<Rightarrow> 0 | Some x \<Rightarrow> x - 1))\<rparr>"

text \<open>The same as the first, with a \<open>float\<close> objective that is \<open>-inf\<close> on the negative
  states.\<close>

definition float_problem_py :: "int problem_py" where
  "float_problem_py =
     line_problem_py\<lparr>objective_py :=
       (\<lambda>s. Inr (FloatNum (case s of
                               None \<Rightarrow> FloatNegInf
                             | Some x \<Rightarrow> if x < 0 then FloatNegInf
                                         else FloatV (real_of_int x))))\<rparr>"

section \<open>Facts about the model\<close>

subsection \<open>Helper facts\<close>

lemma py_or0_id: "b \<noteq> PyNone \<Longrightarrow> py_or0 b = b"
  by (cases b) auto

lemma accept_neighbor_nonneg:
  "temp e \<noteq> 0 \<Longrightarrow> 0 \<le> - (objective pm (current_state e) - objective pm (Some nb)) / temp e
   \<Longrightarrow> accept_neighbor pm k e nb = Inr True"
  by (simp add: accept_neighbor_def Let_def)

lemma exp_minus_one_le_half: "exp (- 1 :: real) \<le> 1 / 2"
proof -
  have "(2::real) \<le> exp 1" using exp_ge_add_one_self [of "1::real"] by simp
  then have "1 / exp (1::real) \<le> 1 / 2" by (simp add: field_simps)
  then show ?thesis by (simp add: exp_minus field_simps)
qed

lemma dbl_max_ge_one: "1 \<le> dbl_max"
  by (simp add: dbl_max_def)

lemma not_overflows_nonpos: "x \<le> 0 \<Longrightarrow> \<not> exp_overflows x"
proof -
  assume "x \<le> 0"
  then have "exp x \<le> 1" by simp
  then have "exp x \<le> dbl_max" using dbl_max_ge_one by (rule order_trans)
  then show ?thesis by (simp add: exp_overflows_def not_less)
qed

lemma accept_neighbor_total:
  "temp e \<noteq> 0 \<Longrightarrow> \<exists>a. accept_neighbor pm k e nb = Inr a"
  by (auto simp: accept_neighbor_def Let_def)

subsection \<open>The steps of a run\<close>

lemma py_gt_Num: "b \<noteq> PyNone \<Longrightarrow> \<exists>r. py_gt (Num x) b = Inr r"
  by (cases b) auto

lemma py_le_refl: "b \<noteq> PyNone \<Longrightarrow> py_le b b"
  by (cases b) auto

lemma py_le_trans: "py_le a b \<Longrightarrow> py_le b c \<Longrightarrow> py_le a c"
  by (cases a; cases b; cases c) auto

lemma max_seen_not_None: "max_seen vs \<noteq> PyNone"
  by (induction vs) (auto split: pyval.splits)

lemma max_seen_Max: "vs \<noteq> [] \<Longrightarrow> max_seen vs = Num (Max (set vs))"
proof (induction vs)
  case Nil
  then show ?case by simp
next
  case (Cons v vs)
  show ?case
  proof (cases "vs = []")
    case True
    then show ?thesis by simp
  next
    case False
    with Cons show ?thesis by (simp add: max_def)
  qed
qed

text \<open>What a seeding step does, when the best objective is not None.\<close>

lemma seed_step_Inr:
  assumes "best_objective e \<noteq> PyNone"
  shows "seed_step pm st e =
           Inr (if py_gt (Num (objective pm (Some st))) (best_objective e) = Inr True
                then e\<lparr>current_state := Some st, current_objective := Num (objective pm (Some st)),
                       evaluated := objective pm (Some st) # evaluated e,
                       best_state := Some st, best_objective := Num (objective pm (Some st))\<rparr>
                else e\<lparr>current_state := Some st, current_objective := Num (objective pm (Some st)),
                       evaluated := objective pm (Some st) # evaluated e\<rparr>)"
  using assms by (cases "best_objective e") (auto simp: seed_step_def Let_def)

lemma seed_step_frame:
  assumes "seed_step pm st e = Inr e'"
  shows "cur_steps e' = cur_steps e \<and> max_steps e' = max_steps e \<and> n_samples e' = n_samples e
         \<and> points_to_evaluate e' = points_to_evaluate e \<and> temp e' = temp e
         \<and> max_objective e' = max_objective e \<and> initial_state e' = initial_state e"
  using assms by (auto simp: seed_step_def Let_def split: sum.splits if_splits)

lemma climb_iter_frame:
  assumes "climb_iter pm i e = Inr e'"
  shows "cur_steps e' = cur_steps e + 1 \<and> max_steps e' = max_steps e \<and> n_samples e' = n_samples e
         \<and> points_to_evaluate e' = points_to_evaluate e \<and> temp e' = temp e
         \<and> max_objective e' = max_objective e \<and> initial_state e' = initial_state e"
  using assms by (auto simp: climb_iter_def Let_def split: sum.splits if_splits)

lemma accept_neighbor_rejected:
  assumes "temp e > 0" and "accept_neighbor pm k e nb = Inr False"
  shows "objective pm (Some nb) < objective pm (current_state e)"
proof (rule ccontr)
  assume "\<not> objective pm (Some nb) < objective pm (current_state e)"
  then have "0 \<le> - (objective pm (current_state e) - objective pm (Some nb)) / temp e"
    using assms(1) by (simp add: field_simps)
  with assms(1) have "accept_neighbor pm k e nb = Inr True"
    by (intro accept_neighbor_nonneg) auto
  with assms(2) show False by simp
qed

lemma py_le_Num_left: "py_le (Num x) b \<Longrightarrow> \<exists>y. b = Num y \<and> x \<le> y"
  by (cases b) auto

lemma seed_step_inv:
  assumes "best_objective e = max_seen (evaluated e)" and "seed_step pm st e = Inr e'"
  shows "best_objective e' = max_seen (evaluated e')
         \<and> py_le (Num (objective pm (current_state e'))) (best_objective e')
         \<and> py_le (best_objective e) (best_objective e')"
proof -
  have nn: "best_objective e \<noteq> PyNone" using assms(1) max_seen_not_None by metis
  show ?thesis
    using assms seed_step_Inr [OF nn, of pm st] max_seen_not_None [of "evaluated e"]
    by (cases "max_seen (evaluated e)") (auto simp: max_def)
qed

lemma climb_iter_inv:
  assumes "temp e > 0" and "best_objective e = max_seen (evaluated e)"
    and "py_le (Num (objective pm (current_state e))) (best_objective e)"
    and "climb_iter pm i e = Inr e'"
  shows "best_objective e' = max_seen (evaluated e')
         \<and> py_le (Num (objective pm (current_state e'))) (best_objective e')
         \<and> py_le (best_objective e) (best_objective e')"
proof -
  let ?e1 = "e\<lparr>cur_steps := cur_steps e + 1\<rparr>"
  let ?nb = "neighbor pm i (current_state e)"
  obtain b where b: "best_objective e = Num b" "objective pm (current_state e) \<le> b"
    using py_le_Num_left [OF assms(3)] by auto
  obtain a where a: "accept_neighbor pm i ?e1 ?nb = Inr a"
    using accept_neighbor_total [of ?e1 pm i ?nb] assms(1) by auto
  show ?thesis
  proof (cases a)
    case True
    with a b assms(2,4) show ?thesis
      by (auto simp: climb_iter_def Let_def deepcopy_def max_def split: if_splits)
  next
    case False
    with a have "objective pm (Some ?nb) < objective pm (current_state ?e1)"
      using accept_neighbor_rejected [of ?e1 pm i ?nb] assms(1) by simp
    with False a b assms(2,4) show ?thesis
      by (auto simp: climb_iter_def Let_def deepcopy_def max_def split: if_splits)
  qed
qed

lemma best_is_max_not_None: "best_is_max e \<Longrightarrow> best_objective e \<noteq> PyNone"
  by (simp add: best_is_max_def max_seen_not_None)

lemma seed_step_total: "best_objective e \<noteq> PyNone \<Longrightarrow> \<exists>e'. seed_step pm st e = Inr e'"
  by (simp add: seed_step_Inr)

lemma seed_step_max:
  assumes "best_is_max e" and "seed_step pm st e = Inr e'"
  shows "best_is_max e' \<and> current_le_best pm e' \<and> best_le e e'"
  using seed_step_inv [of e pm st e'] assms
  by (auto simp: best_is_max_def current_le_best_def best_le_def)

lemma eval_points_max:
  assumes "best_is_max e"
  shows "eval_points pm ps e = Inr (last (e # eval_points_trace pm ps e))
         \<and> (\<forall>s\<in>set (eval_points_trace pm ps e). best_is_max s \<and> current_le_best pm s)
         \<and> successively best_le (e # eval_points_trace pm ps e)"
  using assms
proof (induction ps arbitrary: e)
  case Nil
  then show ?case by simp
next
  case (Cons p ps)
  obtain e' where e': "seed_step pm p e = Inr e'"
    using seed_step_total [of e pm p] best_is_max_not_None [OF Cons.prems] by auto
  have step: "best_is_max e' \<and> current_le_best pm e' \<and> best_le e e'"
    using seed_step_max [OF Cons.prems e'] .
  with Cons.IH [of e'] e' show ?case by simp
qed

lemma sample_loop_max:
  assumes "best_is_max e"
  shows "sample_loop pm n e = Inr (last (e # sample_loop_trace pm n e))
         \<and> (\<forall>s\<in>set (sample_loop_trace pm n e). best_is_max s \<and> current_le_best pm s)
         \<and> successively best_le (e # sample_loop_trace pm n e)"
  using assms
proof (induction pm n e rule: sample_loop.induct)
  case (1 pm n e)
  show ?case
  proof (cases "n < n_samples e")
    case False
    have "sample_loop pm n e = Inr e"
      using sample_loop.simps [of pm n e] False by simp
    moreover have "sample_loop_trace pm n e = []"
      using sample_loop_trace.simps [of pm n e] False by simp
    ultimately show ?thesis by simp
  next
    case True
    obtain e' where e': "seed_step pm (random_state pm (nat n)) e = Inr e'"
      using seed_step_total [of e pm] best_is_max_not_None [OF "1.prems"] by auto
    have step: "best_is_max e' \<and> current_le_best pm e' \<and> best_le e e'"
      using seed_step_max [OF "1.prems" e'] .
    have IH: "sample_loop pm (n + 1) e' = Inr (last (e' # sample_loop_trace pm (n + 1) e'))
         \<and> (\<forall>s\<in>set (sample_loop_trace pm (n + 1) e'). best_is_max s \<and> current_le_best pm s)
         \<and> successively best_le (e' # sample_loop_trace pm (n + 1) e')"
      by (rule "1.IH" [OF True e']) (simp add: step)
    have unf1: "sample_loop pm n e = sample_loop pm (n + 1) e'"
      using sample_loop.simps [of pm n e] True e' by simp
    have unf2: "sample_loop_trace pm n e = e' # sample_loop_trace pm (n + 1) e'"
      using sample_loop_trace.simps [of pm n e] True e' by simp
    note unf = unf1 unf2
    show ?thesis using IH step by (simp add: unf)
  qed
qed

lemma target_exceeded_total:
  "best_objective e \<noteq> PyNone \<Longrightarrow> \<exists>r. target_exceeded e = Inr r"
  by (cases "best_objective e") (auto simp: target_exceeded_def split: option.splits)

lemma climb_iter_total:
  assumes "temp e \<noteq> 0" and "best_objective e \<noteq> PyNone"
  shows "\<exists>e'. climb_iter pm i e = Inr e'"
proof -
  obtain a where "accept_neighbor pm i (e\<lparr>cur_steps := cur_steps e + 1\<rparr>)
                       (neighbor pm i (current_state e)) = Inr a"
    using accept_neighbor_total [of "e\<lparr>cur_steps := cur_steps e + 1\<rparr>" pm i] assms(1)
    by auto
  then show ?thesis
    using assms(2) by (cases "best_objective e") (auto simp: climb_iter_def Let_def)
qed

lemma climb_iter_max:
  assumes "0 < temp e" and "best_is_max e" and "current_le_best pm e"
    and "climb_iter pm i e = Inr e'"
  shows "best_is_max e' \<and> current_le_best pm e' \<and> best_le e e' \<and> 0 < temp e'"
  using climb_iter_inv [of e pm i e'] climb_iter_frame [of pm i e e'] assms
  by (auto simp: best_is_max_def current_le_best_def best_le_def)

lemma climb_max:
  assumes "0 < temp e" and "best_is_max e" and "current_le_best pm e"
  shows "(\<exists>out. climb pm is e = Inr (last (e # climb_trace pm is e), out))
         \<and> (\<forall>s\<in>set (climb_trace pm is e). best_is_max s \<and> current_le_best pm s)
         \<and> successively best_le (e # climb_trace pm is e)"
  using assms
proof (induction "is" arbitrary: e)
  case Nil
  then show ?case by simp
next
  case (Cons i "is")
  obtain e' where e': "climb_iter pm i e = Inr e'"
    using climb_iter_total [of e pm i] Cons.prems best_is_max_not_None by fastforce
  have step: "best_is_max e' \<and> current_le_best pm e' \<and> best_le e e' \<and> 0 < temp e'"
    using climb_iter_max [OF Cons.prems e'] .
  obtain r where r: "target_exceeded e' = Inr r"
    using target_exceeded_total [of e'] step best_is_max_not_None by auto
  show ?case
  proof (cases r)
    case True
    with e' r step show ?thesis by simp
  next
    case False
    with Cons.IH [of e'] e' r step show ?thesis by simp
  qed
qed


lemma seed_step_config:
  "seed_step pm st e = Inr e' \<Longrightarrow> same_config e e' \<and> cur_steps e' = cur_steps e"
  using seed_step_frame [of pm st e e'] by (simp add: same_config_def)


lemma same_config_trans: "same_config a b \<Longrightarrow> same_config b c \<Longrightarrow> same_config a c"
  by (simp add: same_config_def)

lemma eval_points_config:
  "eval_points pm ps e = Inr e' \<Longrightarrow> same_config e e' \<and> cur_steps e' = cur_steps e"
proof (induction ps arbitrary: e)
  case Nil
  then show ?case by (simp add: same_config_def)
next
  case (Cons p ps)
  then obtain e1 where e1: "seed_step pm p e = Inr e1" "eval_points pm ps e1 = Inr e'"
    by (auto split: sum.splits)
  from seed_step_config [OF e1(1)] Cons.IH [OF e1(2)] show ?case
    by (auto intro: same_config_trans)
qed

lemma sample_loop_config:
  "sample_loop pm n e = Inr e' \<Longrightarrow> same_config e e' \<and> cur_steps e' = cur_steps e"
proof (induction pm n e rule: sample_loop.induct)
  case (1 pm n e)
  show ?case
  proof (cases "n < n_samples e")
    case False
    with "1.prems" sample_loop.simps [of pm n e] show ?thesis
      by (simp add: same_config_def)
  next
    case True
    with "1.prems" sample_loop.simps [of pm n e]
    obtain e1 where e1: "seed_step pm (random_state pm (nat n)) e = Inr e1"
      "sample_loop pm (n + 1) e1 = Inr e'"
      by (auto split: sum.splits)
    from seed_step_config [OF e1(1)] "1.IH" [OF True e1(1) e1(2)] show ?thesis
      by (auto intro: same_config_trans)
  qed
qed

lemma seeding_config:
  "seeding pm e = Inr e' \<Longrightarrow> same_config e e' \<and> cur_steps e' = cur_steps e"
  using eval_points_config [of pm "points_to_evaluate e" e e'] sample_loop_config [of pm 0 e e']
  by (auto simp: seeding_def Let_def same_config_def split: if_splits)

lemma eval_points_trace_nonempty:
  "best_objective e \<noteq> PyNone \<Longrightarrow> ps \<noteq> [] \<Longrightarrow> eval_points_trace pm ps e \<noteq> []"
  using seed_step_total [of e pm "hd ps"] by (cases ps) auto

lemma sample_loop_trace_nonempty:
  "best_objective e \<noteq> PyNone \<Longrightarrow> n < n_samples e \<Longrightarrow> sample_loop_trace pm n e \<noteq> []"
  using seed_step_total [of e pm "random_state pm (nat n)"] sample_loop_trace.simps [of pm n e]
  by auto

lemma seeding_max:
  assumes "evaluated e = []" and "best_objective e = NegInf"
  shows "seeding pm e = Inr (last (seeding_trace pm e))
         \<and> seeding_trace pm e \<noteq> []
         \<and> (\<forall>s\<in>set (seeding_trace pm e). best_is_max s \<and> current_le_best pm s)
         \<and> successively best_le (e # seeding_trace pm e)"
proof -
  have m: "best_is_max e" using assms by (simp add: best_is_max_def)
  have nn: "best_objective e \<noteq> PyNone" using assms by simp
  consider (points) "length (points_to_evaluate e) > 0"
    | (samples) "\<not> length (points_to_evaluate e) > 0" "n_samples e > 1"
    | (initial) "\<not> length (points_to_evaluate e) > 0" "\<not> n_samples e > 1"
    by blast
  then show ?thesis
  proof cases
    case points
    then have ne: "eval_points_trace pm (points_to_evaluate e) e \<noteq> []"
      using eval_points_trace_nonempty [OF nn] by simp
    with points eval_points_max [OF m, of pm "points_to_evaluate e"] show ?thesis
      by (simp add: seeding_def seeding_trace_def)
  next
    case samples
    then have ne: "sample_loop_trace pm 0 e \<noteq> []"
      using sample_loop_trace_nonempty [OF nn, of 0] by simp
    with samples sample_loop_max [OF m, of pm 0] show ?thesis
      by (simp add: seeding_def seeding_trace_def)
  next
    case initial
    with assms show ?thesis
      by (simp add: seeding_def seeding_trace_def Let_def best_is_max_def current_le_best_def
          best_le_def)
  qed
qed

lemma transp_best_le: "transp best_le"
  by (auto simp: transp_def best_le_def intro: py_le_trans)

lemma best_is_max_Max:
  "best_is_max s \<Longrightarrow>
     best_objective s = (if evaluated s = [] then NegInf else Num (Max (set (evaluated s))))"
  by (simp add: best_is_max_def max_seen_Max)

lemma clear_start:
  "evaluated ((clear e0)\<lparr>current_objective := best_objective (clear e0)\<rparr>) = []"
  "best_objective ((clear e0)\<lparr>current_objective := best_objective (clear e0)\<rparr>) = NegInf"
  "same_config e0 ((clear e0)\<lparr>current_objective := best_objective (clear e0)\<rparr>)"
  "cur_steps ((clear e0)\<lparr>current_objective := best_objective (clear e0)\<rparr>) = 0"
  by (simp_all add: clear_def same_config_def)

lemma run_max:
  assumes "0 < temp e0"
  shows "(\<forall>s\<in>set (run_trace pm e0). best_is_max s)
         \<and> successively best_le (run_trace pm e0)
         \<and> (\<exists>out. run pm e0 = Inr (last (run_trace pm e0), out))"
proof -
  let ?e2 = "(clear e0)\<lparr>current_objective := best_objective (clear e0)\<rparr>"
  let ?S = "seeding_trace pm ?e2"
  let ?e3 = "last ?S"
  let ?C = "climb_trace pm (py_range (remaining ?e3)) ?e3"
  have s: "seeding pm ?e2 = Inr ?e3" "?S \<noteq> []"
    "\<forall>s\<in>set ?S. best_is_max s \<and> current_le_best pm s"
    "successively best_le (?e2 # ?S)"
    using seeding_max [of ?e2 pm] clear_start(1,2) [of e0] by simp_all
  have e3: "best_is_max ?e3" "current_le_best pm ?e3"
    using s(2,3) last_in_set by blast+
  have "same_config ?e2 ?e3" using seeding_config [OF s(1)] by simp
  with clear_start(3) [of e0] have "temp ?e3 = temp e0" by (simp add: same_config_def)
  with assms have t: "0 < temp ?e3" by simp
  have c: "\<exists>out. climb pm (py_range (remaining ?e3)) ?e3 = Inr (last (?e3 # ?C), out)"
    "\<forall>s\<in>set ?C. best_is_max s \<and> current_le_best pm s"
    "successively best_le (?e3 # ?C)"
    using climb_max [OF t e3, of "py_range (remaining ?e3)"] by simp_all
  have tr: "run_trace pm e0 = (?e2 # ?S) @ ?C"
    by (simp add: run_trace_def Let_def s(1))
  have m0: "best_is_max ?e2" by (simp add: best_is_max_def clear_def)
  have 1: "\<forall>s\<in>set (run_trace pm e0). best_is_max s"
    using s(3) c(2) m0 unfolding tr by auto
  have 2: "successively best_le (run_trace pm e0)"
    unfolding tr successively_append_iff
    using s(4) c(3) s(2) by (cases ?C) (auto simp: successively_Cons)
  have l: "last (run_trace pm e0) = last (?e3 # ?C)"
    unfolding tr using s(2) by (cases "?C = []") simp_all
  have r: "run pm e0 = climb pm (py_range (remaining ?e3)) ?e3"
    by (simp add: run_def Let_def s(1))
  have 3: "\<exists>out. run pm e0 = Inr (last (run_trace pm e0), out)"
    unfolding l r using c(1) .
  from 1 2 3 show ?thesis by blast
qed

lemma accept_neighbor_worse_by_one:
  assumes "temp e = 1" and "objective pm (Some nb) = objective pm (current_state e) - 1"
    and "uniform pm k = 9 / 10"
  shows "accept_neighbor pm k e nb = Inr False"
  using assms exp_minus_one_le_half not_overflows_nonpos [of "- 1"]
  by (simp add: accept_neighbor_def Let_def)

subsection \<open>Invariants of the loops\<close>

text \<open>Invariants of the loops, for any property the steps preserve.\<close>

lemma eval_points_invariant:
  assumes step: "\<And>st e e'. P e \<Longrightarrow> seed_step pm st e = Inr e' \<Longrightarrow> P e'"
    and "P e" and "eval_points pm ps e = Inr e'"
  shows "P e'"
  using assms(2,3)
proof (induction ps arbitrary: e)
  case Nil
  then show ?case by simp
next
  case (Cons p ps)
  then obtain e1 where e1: "seed_step pm p e = Inr e1" "eval_points pm ps e1 = Inr e'"
    by (auto split: sum.splits)
  from step [OF Cons.prems(1) e1(1)] e1(2) show ?case by (rule Cons.IH)
qed

lemma sample_loop_invariant:
  assumes "\<And>st e e'. P e \<Longrightarrow> seed_step pm st e = Inr e' \<Longrightarrow> P e'"
    and "P e" and "sample_loop pm n e = Inr e'"
  shows "P e'"
  using assms
proof (induction pm n e rule: sample_loop.induct)
  case (1 pm n e)
  note step = "1.prems"(1)
  show ?case
  proof (cases "n < n_samples e")
    case False
    with "1.prems"(2,3) sample_loop.simps [of pm n e] show ?thesis by simp
  next
    case True
    with "1.prems"(3) sample_loop.simps [of pm n e]
    obtain e1 where e1: "seed_step pm (random_state pm (nat n)) e = Inr e1"
      "sample_loop pm (n + 1) e1 = Inr e'"
      by (auto split: sum.splits)
    have p1: "P e1" using step [OF "1.prems"(2) e1(1)] .
    show ?thesis
      using "1.IH" [OF True e1(1) step p1 e1(2)] .
  qed
qed

lemma climb_trace_invariant:
  assumes step: "\<And>i e e'. P e \<Longrightarrow> climb_iter pm i e = Inr e' \<Longrightarrow> P e'"
    and "P e"
  shows "\<forall>s\<in>set (climb_trace pm is e). P s"
  using assms(2)
proof (induction "is" arbitrary: e)
  case Nil
  then show ?case by simp
next
  case (Cons i "is")
  show ?case
  proof (cases "climb_iter pm i e")
    case (Inl err)
    then show ?thesis by simp
  next
    case (Inr e1)
    have p1: "P e1" using step [OF Cons.prems Inr] .
    from Cons.IH [OF p1] p1 Inr show ?thesis
      by (auto split: sum.splits)
  qed
qed

lemma seed_step_known:
  assumes "best_known e" and "seed_step pm st e = Inr e'"
  shows "best_known e'"
proof -
  have nn: "best_objective e \<noteq> PyNone" using assms(1) by (auto simp: best_known_def)
  show ?thesis
    using assms seed_step_Inr [OF nn, of pm st]
    by (auto simp: best_known_def split: if_splits)
qed

lemma climb_iter_known:
  assumes "best_known e" and "climb_iter pm i e = Inr e'"
  shows "best_known e'"
  using assms
  by (auto simp: best_known_def climb_iter_def Let_def split: sum.splits if_splits)

lemma seeding_known:
  assumes "best_known e" and "seeding pm e = Inr e'"
  shows "best_known e'"
proof -
  note sk = seed_step_known [of _ pm]
  consider (points) "length (points_to_evaluate e) > 0"
    | (samples) "\<not> length (points_to_evaluate e) > 0" "n_samples e > 1"
    | (initial) "\<not> length (points_to_evaluate e) > 0" "\<not> n_samples e > 1"
    by blast
  then show ?thesis
  proof cases
    case points
    with assms(2) have "eval_points pm (points_to_evaluate e) e = Inr e'"
      by (simp add: seeding_def)
    then show ?thesis using eval_points_invariant [of best_known pm e] sk assms(1) by blast
  next
    case samples
    with assms(2) have "sample_loop pm 0 e = Inr e'"
      by (simp add: seeding_def)
    then show ?thesis using sample_loop_invariant [of best_known pm e] sk assms(1) by blast
  next
    case initial
    with assms(2) show ?thesis
      by (auto simp: seeding_def Let_def best_known_def)
  qed
qed

lemma climbing_states_known: "\<forall>s\<in>set (climbing_states pm e0). best_known s"
proof (cases "seeding pm ((clear e0)\<lparr>current_objective := best_objective (clear e0)\<rparr>)")
  case (Inl err)
  then show ?thesis by (simp add: climbing_states_def Let_def)
next
  case (Inr e3)
  have "best_known ((clear e0)\<lparr>current_objective := best_objective (clear e0)\<rparr>)"
    by (simp add: best_known_def clear_def)
  then have k3: "best_known e3" using Inr by (rule seeding_known)
  then have "\<forall>s\<in>set (climb_trace pm (py_range (remaining e3)) e3). best_known s"
    using climb_trace_invariant [of best_known pm e3] climb_iter_known by blast
  with k3 Inr show ?thesis by (simp add: climbing_states_def Let_def)
qed

lemma best_known_not_None: "best_known s \<Longrightarrow> best_objective s \<noteq> PyNone"
  by (auto simp: best_known_def)

lemma climb_iter_direct_eq:
  "best_objective e \<noteq> PyNone \<Longrightarrow> climb_iter pm i e = climb_iter_direct pm i e"
  by (cases "accept_neighbor pm i (e\<lparr>cur_steps := cur_steps e + 1\<rparr>)
               (neighbor pm i (current_state e))")
     (simp_all add: climb_iter_def climb_iter_direct_def Let_def py_or0_id)

lemma target_exceeded_direct_eq:
  "best_objective e \<noteq> PyNone \<Longrightarrow> target_exceeded e = target_exceeded_direct e"
  by (simp add: target_exceeded_def target_exceeded_direct_def py_or0_id split: option.splits)

lemma py_range_2: "py_range 2 = [0, 1]"
  by (simp add: py_range_def numeral_2_eq_2)

subsection \<open>What a run returns\<close>

lemma target_exceeded_True:
  assumes "best_objective s \<noteq> PyNone" and "target_exceeded s = Inr True"
  shows "\<exists>m b. max_objective s = Some m \<and> best_objective s = Num b \<and> m < b"
  using assms
  by (cases "best_objective s") (auto simp: target_exceeded_def split: option.splits if_splits)




lemma seeding_start:
  "\<exists>e3. seeding pm ((clear e0)\<lparr>current_objective := best_objective (clear e0)\<rparr>) = Inr e3
     \<and> best_known e3 \<and> same_config e0 e3 \<and> cur_steps e3 = 0"
proof -
  let ?e2 = "(clear e0)\<lparr>current_objective := best_objective (clear e0)\<rparr>"
  obtain e3 where e3: "seeding pm ?e2 = Inr e3"
    using seeding_max [of ?e2 pm] clear_start(1,2) [of e0] by blast
  have "best_known ?e2" by (simp add: best_known_def clear_def)
  then have "best_known e3" using e3 by (rule seeding_known)
  moreover have "same_config e0 e3 \<and> cur_steps e3 = 0"
    using seeding_config [OF e3] clear_start(3,4) [of e0] by (auto intro: same_config_trans)
  ultimately show ?thesis using e3 by blast
qed




lemma py_range_3: "py_range 3 = [0, 1, 2]"
  by (simp add: py_range_def numeral_3_eq_3)

lemma seed_step_is_objective:
  assumes "best_is_objective pm e" and "seed_step pm st e = Inr e'"
  shows "best_is_objective pm e'"
proof -
  have nn: "best_objective e \<noteq> PyNone" using assms(1) by (auto simp: best_is_objective_def)
  show ?thesis
    using assms seed_step_Inr [OF nn, of pm st]
    by (auto simp: best_is_objective_def split: if_splits)
qed

lemma climb_iter_is_objective:
  assumes "best_is_objective pm e" and "climb_iter pm i e = Inr e'"
  shows "best_is_objective pm e'"
  using assms
  by (auto simp: best_is_objective_def climb_iter_def Let_def split: sum.splits if_splits)

lemma seeding_is_objective:
  assumes "best_is_objective pm e" and "seeding pm e = Inr e'"
  shows "best_is_objective pm e'"
proof -
  note sk = seed_step_is_objective [of pm]
  consider (points) "length (points_to_evaluate e) > 0"
    | (samples) "\<not> length (points_to_evaluate e) > 0" "n_samples e > 1"
    | (initial) "\<not> length (points_to_evaluate e) > 0" "\<not> n_samples e > 1"
    by blast
  then show ?thesis
  proof cases
    case points
    with assms(2) have "eval_points pm (points_to_evaluate e) e = Inr e'"
      by (simp add: seeding_def)
    then show ?thesis
      using eval_points_invariant [of "best_is_objective pm" pm e] sk assms(1) by blast
  next
    case samples
    with assms(2) have "sample_loop pm 0 e = Inr e'"
      by (simp add: seeding_def)
    then show ?thesis
      using sample_loop_invariant [of "best_is_objective pm" pm e] sk assms(1) by blast
  next
    case initial
    with assms(2) show ?thesis
      by (auto simp: seeding_def Let_def best_is_objective_def)
  qed
qed

lemma climbing_states_is_objective:
  "\<forall>s\<in>set (climbing_states pm e0). best_is_objective pm s"
proof (cases "seeding pm ((clear e0)\<lparr>current_objective := best_objective (clear e0)\<rparr>)")
  case (Inl err)
  then show ?thesis by (simp add: climbing_states_def Let_def)
next
  case (Inr e3)
  have "best_is_objective pm ((clear e0)\<lparr>current_objective := best_objective (clear e0)\<rparr>)"
    by (simp add: best_is_objective_def clear_def)
  then have k3: "best_is_objective pm e3" using Inr by (rule seeding_is_objective)
  then have "\<forall>s\<in>set (climb_trace pm (py_range (remaining e3)) e3). best_is_objective pm s"
    using climb_trace_invariant [of "best_is_objective pm" pm e3] climb_iter_is_objective
    by blast
  with k3 Inr show ?thesis by (simp add: climbing_states_def Let_def)
qed

lemma target_exceeded_unreachable:
  assumes "best_is_objective pm s" and "max_objective s = Some m"
    and "\<forall>x. objective pm x \<le> m"
  shows "target_exceeded s \<noteq> Inr True"
proof
  assume t: "target_exceeded s = Inr True"
  have nn: "best_objective s \<noteq> PyNone" using assms(1) by (auto simp: best_is_objective_def)
  from target_exceeded_True [OF nn t] assms(2) obtain b where
    b: "best_objective s = Num b" "m < b" by auto
  with assms(1) obtain x where "b = objective pm x" by (auto simp: best_is_objective_def)
  with assms(3) b(2) show False by (simp add: not_less [symmetric])
qed


lemma py_range_0: "py_range 0 = []"
  by (simp add: py_range_def)

lemma seed_step_agrees:
  assumes "best_state_agrees pm e \<and> best_known e" and "seed_step pm st e = Inr e'"
  shows "best_state_agrees pm e' \<and> best_known e'"
proof -
  have nn: "best_objective e \<noteq> PyNone" using assms(1) best_known_not_None by blast
  have "best_state_agrees pm e'"
    using assms seed_step_Inr [OF nn, of pm st]
    by (auto simp: best_state_agrees_def split: if_splits)
  with seed_step_known [of e pm st e'] assms show ?thesis by blast
qed

lemma climb_iter_agrees:
  assumes "best_state_agrees pm e \<and> best_known e" and "climb_iter pm i e = Inr e'"
  shows "best_state_agrees pm e' \<and> best_known e'"
proof -
  have "best_state_agrees pm e'"
    using assms
    by (auto simp: best_state_agrees_def climb_iter_def Let_def deepcopy_def
        split: sum.splits if_splits)
  with climb_iter_known [of e pm i e'] assms show ?thesis by blast
qed

lemma seeding_agrees:
  assumes "best_state e = None \<and> best_known e" and "seeding pm e = Inr e'"
  shows "best_state_agrees pm e' \<and> best_known e'"
proof -
  note sk = seed_step_agrees [of pm]
  have a: "best_state_agrees pm e \<and> best_known e"
    using assms(1) by (simp add: best_state_agrees_def)
  consider (points) "length (points_to_evaluate e) > 0"
    | (samples) "\<not> length (points_to_evaluate e) > 0" "n_samples e > 1"
    | (initial) "\<not> length (points_to_evaluate e) > 0" "\<not> n_samples e > 1"
    by blast
  then show ?thesis
  proof cases
    case points
    with assms(2) have "eval_points pm (points_to_evaluate e) e = Inr e'"
      by (simp add: seeding_def)
    then show ?thesis
      using eval_points_invariant
        [of "\<lambda>e. best_state_agrees pm e \<and> best_known e" pm e] sk a by blast
  next
    case samples
    with assms(2) have "sample_loop pm 0 e = Inr e'"
      by (simp add: seeding_def)
    then show ?thesis
      using sample_loop_invariant
        [of "\<lambda>e. best_state_agrees pm e \<and> best_known e" pm e] sk a by blast
  next
    case initial
    with assms show ?thesis
      by (auto simp: seeding_def Let_def best_state_agrees_def best_known_def)
  qed
qed

subsection \<open>Objects in the store\<close>

lemma accept_neighbor_ref_nonneg:
  "temp (fst eh) \<noteq> 0 \<Longrightarrow>
   0 \<le> - (objective pm (deref (snd eh) (current_state (fst eh)))
           - objective pm (deref (snd eh) (Some nb))) / temp (fst eh)
   \<Longrightarrow> accept_neighbor_ref pm k eh nb = Inr True"
  by (simp add: accept_neighbor_ref_def Let_def)

lemma accept_neighbor_ref_worse_by_one:
  assumes "temp (fst eh) = 1"
    and "objective pm (deref (snd eh) (Some nb))
           = objective pm (deref (snd eh) (current_state (fst eh))) - 1"
    and "uniform pm k = 9 / 10"
  shows "accept_neighbor_ref pm k eh nb = Inr False"
  using assms exp_minus_one_le_half not_overflows_nonpos [of "- 1"]
  by (simp add: accept_neighbor_ref_def Let_def)

text \<open>A seeding step leaves the store as it is and makes \<open>current_state\<close> the very
  reference it was given; \<open>best_state\<close> is that reference or the old one.\<close>

lemma seed_step_ref_alias:
  assumes "seed_step_ref pm r (e, h) = Inr (e', h')"
  shows "h' = h \<and> current_state e' = Some r
         \<and> (best_state e' = current_state e' \<or> best_state e' = best_state e)"
  using assms by (auto simp: seed_step_ref_def Let_def split: sum.splits if_splits)

text \<open>\<open>deepcopy\<close> of an object gives an address that was not in use, and a mutation of
  the original does not reach the copy.\<close>

lemma deepcopy_ref_fresh:
  assumes "deref h (Some a) = Some v" and "deepcopy_ref (Some a) h = (c, h')"
  shows "c = Some (length h) \<and> c \<noteq> Some a \<and> deref h' c = Some v
         \<and> deref (mutate a w h') c = Some v"
  using assms
  by (auto simp: deepcopy_ref_def deref_def alloc_def mutate_def nth_append
      split: if_splits)

subsection \<open>The constructor\<close>

lemma float_of_int_small:
  "\<bar>n\<bar> < 2 ^ 53 \<Longrightarrow> float_of_int n = Inr (FloatV (real_of_int n))"
  by (auto simp: float_of_int_def int_too_large_def round53_def)

lemma init_Inl_iff:
  "(\<exists>err. init s t ms mo n ps = Inl err) \<longleftrightarrow>
     \<not> (is_int ms \<and> 0 < to_int ms) \<or> (mo \<noteq> ArgNone \<and> \<not> is_float_or_int mo)
     \<or> \<not> is_float_or_int t \<or> arg_too_large mo \<or> arg_too_large t"
  by (cases mo; cases t) (auto simp: init_def float_of_int_def split: sum.splits)

lemma init_Inl_error:
  "init s t ms mo n ps = Inl err \<Longrightarrow>
     err = (if \<not> (is_int ms \<and> 0 < to_int ms)
            then ValueError ''Max steps must be a positive integer''
            else if mo \<noteq> ArgNone \<and> \<not> is_float_or_int mo
            then ValueError ''Maximum objective must be a numeric type''
            else if arg_too_large mo then OverflowError
            else if \<not> is_float_or_int t
            then ValueError ''Temperature must be a numeric type''
            else OverflowError)"
  by (cases mo; cases t) (auto simp: init_def float_of_int_def split: sum.splits if_splits)

lemma init_Inr_stores:
  "init s t ms mo n ps = Inr e \<Longrightarrow>
     to_float t = Inr (temp_py e) \<and> max_steps_py e = to_int ms
     \<and> (case max_objective_py e of
          None \<Rightarrow> mo = ArgNone
        | Some m \<Rightarrow> mo \<noteq> ArgNone \<and> to_float mo = Inr m)
     \<and> e = new_shc_py s (temp_py e) (to_int ms) (max_objective_py e) n ps"
  by (cases mo; cases t)
     (auto simp: init_def float_of_int_def new_shc_py_def split: sum.splits if_splits)

subsection \<open>Rounding an int to a float\<close>

lemma is_double_minus: "is_double (- x) = is_double x"
  by (simp add: is_double_def)

lemma no_double_between:
  assumes d: "is_double y" and lt: "real (q * 2 ^ k) < y" and q: "2 ^ 52 \<le> q" and k: "1 \<le> k"
  shows "real ((q + 1) * 2 ^ k) \<le> y"
proof -
  have ypos: "0 < y" using lt by (smt (verit) of_nat_0_le_iff)
  from d ypos obtain m e :: nat where m: "m < 2 ^ 53"
    and y: "y = real m * 2 ^ e \<or> y = real m / 2 ^ e"
    by (auto simp: is_double_def)
  have big: "(2::nat) ^ 53 \<le> q * 2 ^ k"
  proof -
    have k2: "(2::nat) ^ 1 \<le> 2 ^ k" using k by (intro power_increasing) simp_all
    have "(2::nat) ^ 53 = 2 ^ 52 * 2 ^ 1" by simp
    also have "\<dots> \<le> q * 2 ^ k" using q k2 by (rule mult_mono) simp_all
    finally show ?thesis .
  qed
  from y show ?thesis
  proof
    assume y2: "y = real m / 2 ^ e"
    have "real m / 2 ^ e \<le> real m" by (simp add: field_simps mult_le_cancel_left1)
    with y2 have "y \<le> real m" by simp
    also have "real m < real ((2::nat) ^ 53)" using m by (simp only: of_nat_less_iff)
    also have "\<dots> \<le> real (q * 2 ^ k)" using big by (simp only: of_nat_le_iff)
    finally show ?thesis using lt by simp
  next
    assume y1: "y = real m * 2 ^ e"
    then have y1': "y = real (m * 2 ^ e)" by simp
    with lt have ltn: "q * 2 ^ k < m * 2 ^ e" by (simp only: of_nat_less_iff)
    have ke: "k \<le> e"
    proof (rule ccontr)
      assume "\<not> k \<le> e"
      then have "e + 1 \<le> k" by simp
      then have e2: "(2::nat) ^ (e + 1) \<le> 2 ^ k" by (intro power_increasing) simp_all
      have "m * 2 ^ e \<le> 2 ^ 53 * 2 ^ e" using m by simp
      also have "\<dots> = 2 ^ 52 * 2 ^ (e + 1)" by simp
      also have "\<dots> \<le> q * 2 ^ k" using q e2 by (rule mult_mono) simp_all
      finally show False using ltn by simp
    qed
    then obtain d where e: "e = k + d" by (auto simp: le_iff_add)
    from ltn have "q * 2 ^ k < (m * 2 ^ d) * 2 ^ k" by (simp add: e power_add ac_simps)
    then have "q < m * 2 ^ d" by simp
    then have "q + 1 \<le> m * 2 ^ d" by simp
    then have "(q + 1) * 2 ^ k \<le> (m * 2 ^ d) * 2 ^ k" by (rule mult_le_mono1)
    also have "\<dots> = m * 2 ^ e" by (simp add: e power_add ac_simps)
    finally have "real ((q + 1) * 2 ^ k) \<le> real (m * 2 ^ e)" by (simp only: of_nat_le_iff)
    with y1' show ?thesis by simp
  qed
qed


lemma round53_shape:
  assumes a: "2 ^ 53 \<le> a"
  defines "k \<equiv> floorlog 2 a - 53"
  defines "q \<equiv> a div 2 ^ k"
  shows "1 \<le> k" and "2 ^ 52 \<le> q" and "q * 2 ^ k \<le> a" and "a < (q + 1) * 2 ^ k"
    and "round53 a = q * 2 ^ k \<or> (round53 a = (q + 1) * 2 ^ k \<and> q * 2 ^ k < a)"
proof -
  have a0: "0 < a" using a by (simp add: less_le_trans [of 0 "2 ^ 53"])
  note b = floorlog_bounds [of a 2, OF a0]
  have up: "a < 2 ^ floorlog 2 a" using b by simp
  have lo: "2 ^ (floorlog 2 a - 1) \<le> a" using b by simp
  have "(2::nat) ^ 53 < 2 ^ floorlog 2 a" using a up by (rule le_less_trans)
  then have fl: "53 < floorlog 2 a" by (rule power_less_imp_less_exp [rotated]) simp
  then show k1: "1 \<le> k" by (simp add: k_def)
  have "floorlog 2 a - 1 = 52 + k" using fl by (simp add: k_def)
  with lo have "2 ^ 52 * 2 ^ k \<le> a" by (simp add: power_add)
  then have "2 ^ 52 * 2 ^ k div 2 ^ k \<le> a div 2 ^ k" by (rule div_le_mono)
  then show "2 ^ 52 \<le> q" by (simp add: q_def)
  show le: "q * 2 ^ k \<le> a" by (simp add: q_def)
  have eq: "a = q * 2 ^ k + a mod 2 ^ k"
    unfolding q_def by (rule div_mult_mod_eq [symmetric])
  have md: "a mod 2 ^ k < 2 ^ k" by simp
  have ex: "(q + 1) * 2 ^ k = q * 2 ^ k + 2 ^ k" by (simp add: algebra_simps)
  show "a < (q + 1) * 2 ^ k" unfolding ex using eq md by linarith
  have nz: "(if 2 ^ k < 2 * (a mod 2 ^ k) \<or> (2 * (a mod 2 ^ k) = 2 ^ k \<and> odd q) then True else False)
              \<Longrightarrow> 0 < a mod 2 ^ k"
    using k1 by (auto split: if_splits intro: Suc_leI gr0I)
  have "q * 2 ^ k < a" if "0 < a mod 2 ^ k"
    using eq that by linarith
  with nz show "round53 a = q * 2 ^ k \<or> (round53 a = (q + 1) * 2 ^ k \<and> q * 2 ^ k < a)"
    using a by (auto simp: round53_def Let_def k_def [symmetric] q_def [symmetric] not_less
                  simp del: One_nat_def)
qed

lemma round53_le_double:
  assumes "is_double y" "real a \<le> y"
  shows "real (round53 a) \<le> y"
proof (cases "a < 2 ^ 53")
  case True
  then show ?thesis using assms by (simp add: round53_def)
next
  case False
  then have a: "2 ^ 53 \<le> a" by simp
  let ?k = "floorlog 2 a - 53"
  let ?q = "a div 2 ^ ?k"
  note s = round53_shape [OF a]
  from s(5) show ?thesis
  proof
    assume "round53 a = ?q * 2 ^ ?k"
    then have "round53 a \<le> a" using s(3) by simp
    then have "real (round53 a) \<le> real a" by (simp only: of_nat_le_iff)
    with assms(2) show ?thesis by simp
  next
    assume r: "round53 a = (?q + 1) * 2 ^ ?k \<and> ?q * 2 ^ ?k < a"
    then have "real (?q * 2 ^ ?k) < real a" by (simp only: of_nat_less_iff)
    with assms(2) have "real (?q * 2 ^ ?k) < y" by simp
    from no_double_between [OF assms(1) this s(2) s(1)] r show ?thesis by simp
  qed
qed

lemma round53_ge_double:
  assumes "is_double y" "y \<le> real a"
  shows "y \<le> real (round53 a)"
proof (cases "a < 2 ^ 53")
  case True
  then show ?thesis using assms by (simp add: round53_def)
next
  case False
  then have a: "2 ^ 53 \<le> a" by simp
  let ?k = "floorlog 2 a - 53"
  let ?q = "a div 2 ^ ?k"
  note s = round53_shape [OF a]
  from s(5) show ?thesis
  proof
    assume r: "round53 a = ?q * 2 ^ ?k"
    show ?thesis
    proof (rule ccontr)
      assume "\<not> y \<le> real (round53 a)"
      then have "real (?q * 2 ^ ?k) < y" using r by simp
      from no_double_between [OF assms(1) this s(2) s(1)]
      have "real ((?q + 1) * 2 ^ ?k) \<le> y" .
      moreover have "real a < real ((?q + 1) * 2 ^ ?k)" using s(4) by (simp only: of_nat_less_iff)
      ultimately show False using assms(2) by simp
    qed
  next
    assume r: "round53 a = (?q + 1) * 2 ^ ?k \<and> ?q * 2 ^ ?k < a"
    have "real a < real ((?q + 1) * 2 ^ ?k)" using s(4) by (simp only: of_nat_less_iff)
    with assms(2) r show ?thesis by simp
  qed
qed


lemma float_of_int_cases:
  "float_of_int n = Inl OverflowError \<or> (\<exists>v. float_of_int n = Inr (FloatV v))"
  by (simp add: float_of_int_def)

lemma float_of_int_nonneg:
  "float_of_int n = Inr (FloatV v) \<Longrightarrow> 0 \<le> n \<Longrightarrow> 0 \<le> v"
  by (auto simp: float_of_int_def split: if_splits)

lemma float_of_int_le_double:
  assumes f: "float_of_int n = Inr (FloatV v)" and d: "is_double y" and le: "real_of_int n \<le> y"
  shows "v \<le> y"
proof (cases "n < 0")
  case False
  then have v: "v = real (round53 (nat n))" using f by (auto simp: float_of_int_def split: if_splits)
  have "real (nat n) \<le> y" using False le by simp
  from round53_le_double [OF d this] v show ?thesis by simp
next
  case True
  then have v: "v = - real (round53 (nat (- n)))"
    using f by (auto simp: float_of_int_def split: if_splits)
  show ?thesis
  proof (cases "0 \<le> y")
    case True
    then show ?thesis using v by simp
  next
    case False
    have "- y \<le> real (nat (- n))" using True le by simp
    from round53_ge_double [of "- y", OF _ this] d have "- y \<le> real (round53 (nat (- n)))"
      by (simp add: is_double_minus)
    with v show ?thesis by simp
  qed
qed

lemma float_of_int_ge_double:
  assumes f: "float_of_int n = Inr (FloatV v)" and d: "is_double y" and le: "y \<le> real_of_int n"
  shows "y \<le> v"
proof (cases "n < 0")
  case False
  then have v: "v = real (round53 (nat n))" using f by (auto simp: float_of_int_def split: if_splits)
  have "y \<le> real (nat n)" using False le by simp
  from round53_ge_double [OF d this] v show ?thesis by simp
next
  case True
  then have v: "v = - real (round53 (nat (- n)))"
    using f by (auto simp: float_of_int_def split: if_splits)
  have "real (nat (- n)) \<le> - y" using True le by simp
  from round53_le_double [of "- y", OF _ this] d have "real (round53 (nat (- n))) \<le> - y"
    by (simp add: is_double_minus)
  with v show ?thesis by simp
qed

lemma is_double_of_nat: "m < 2 ^ 53 \<Longrightarrow> is_double (real m)"
  unfolding is_double_def by (rule exI [of _ m], rule exI [of _ 0]) simp

subsection \<open>The acceptance test over all numbers\<close>

lemma accept_of_acceptance:
  "surely_accepted (acceptance pm e nb) \<Longrightarrow> accept_neighbor_py pm k e nb = Inr True"
  by (auto simp: accept_neighbor_py_def surely_accepted_def split: sum.splits)

lemma exponent_nonneg:
  assumes "0 \<le> x" "0 < t"
  shows "surely_accepted
           (case fl_div (FloatV x) (FloatV t) of Inl err \<Rightarrow> Inl err | Inr z \<Rightarrow> fl_exp z)"
  using assms by (simp add: surely_accepted_def)

lemma exponent_inf:
  assumes "0 < t"
  shows "surely_accepted
           (case fl_div FloatInf (FloatV t) of Inl err \<Rightarrow> Inl err | Inr z \<Rightarrow> fl_exp z)"
  using assms by (simp add: surely_accepted_def)

lemma exponent_int:
  assumes "0 \<le> d" "0 < t"
  shows "surely_accepted
           (case num_div_float (IntNum d) (FloatV t) of Inl err \<Rightarrow> Inl err | Inr z \<Rightarrow> fl_exp z)"
proof -
  from float_of_int_cases [of d] show ?thesis
  proof
    assume "float_of_int d = Inl OverflowError"
    then show ?thesis by (simp add: num_div_float_def surely_accepted_def)
  next
    assume "\<exists>v. float_of_int d = Inr (FloatV v)"
    then obtain v where v: "float_of_int d = Inr (FloatV v)" by blast
    from float_of_int_nonneg [OF v assms(1)] have "0 \<le> v" .
    from exponent_nonneg [OF this assms(2)] v show ?thesis by (simp add: num_div_float_def)
  qed
qed

lemma acceptance_eq:
  assumes "objective_py pm (current_state_py e) = Inr oc" "objective_py pm (Some nb) = Inr on"
    "temp_py e = FloatV t"
  shows "acceptance pm e nb =
     (case num_sub oc on of
        Inl err \<Rightarrow> Inl err
      | Inr d \<Rightarrow>
          (case num_div_float (num_neg d) (FloatV t) of
             Inl err \<Rightarrow> Inl err
           | Inr x \<Rightarrow> fl_exp x))"
  using assms by (simp add: acceptance_def split: sum.splits)

lemma boundary_core:
  assumes le: "num_le oc on" and t: "0 < t" and ns: "\<not> same_infinity oc on"
    and ro: "representable oc" and rn: "representable on"
  shows "surely_accepted
     (case num_sub oc on of
        Inl err \<Rightarrow> Inl err
      | Inr d \<Rightarrow>
          (case num_div_float (num_neg d) (FloatV t) of
             Inl err \<Rightarrow> Inl err
           | Inr x \<Rightarrow> fl_exp x))"
proof (cases oc)
  case oci: (IntNum x)
  show ?thesis
  proof (cases on)
    case (IntNum y)
    with oci le have "0 \<le> - (x - y)" by (simp add: num_le_def)
    from exponent_int [OF this t] oci IntNum show ?thesis by simp
  next
    case onf: (FloatNum g)
    from float_of_int_cases [of x] show ?thesis
    proof
      assume "float_of_int x = Inl OverflowError"
      then show ?thesis using oci onf by (simp add: surely_accepted_def)
    next
      assume "\<exists>v. float_of_int x = Inr (FloatV v)"
      then obtain v where v: "float_of_int x = Inr (FloatV v)" by blast
      show ?thesis
      proof (cases g)
        case (FloatV y)
        with le oci onf have "real_of_int x \<le> y" by (simp add: num_le_def)
        moreover have "is_double y" using rn onf FloatV by simp
        ultimately have "v \<le> y" using float_of_int_le_double [OF v] by blast
        then have "0 \<le> - (v - y)" by simp
        from exponent_nonneg [OF this t] show ?thesis
          using oci onf FloatV v by (simp add: num_div_float_def)
      next
        case FloatInf
        with exponent_inf [OF t] show ?thesis
          using oci onf v by (simp add: num_div_float_def)
      next
        case FloatNegInf
        with le oci onf show ?thesis by (simp add: num_le_def)
      next
        case FloatNaN
        with le oci onf show ?thesis by (simp add: num_le_def)
      qed
    qed
  qed
next
  case ocf: (FloatNum f)
  show ?thesis
  proof (cases on)
    case oni: (IntNum y)
    from float_of_int_cases [of y] show ?thesis
    proof
      assume "float_of_int y = Inl OverflowError"
      then show ?thesis using ocf oni by (simp add: surely_accepted_def)
    next
      assume "\<exists>v. float_of_int y = Inr (FloatV v)"
      then obtain v where v: "float_of_int y = Inr (FloatV v)" by blast
      show ?thesis
      proof (cases f)
        case (FloatV x)
        with le ocf oni have "x \<le> real_of_int y" by (simp add: num_le_def)
        moreover have "is_double x" using ro ocf FloatV by simp
        ultimately have "x \<le> v" using float_of_int_ge_double [OF v] by blast
        then have "0 \<le> - (x - v)" by simp
        from exponent_nonneg [OF this t] show ?thesis
          using ocf oni FloatV v by (simp add: num_div_float_def)
      next
        case FloatNegInf
        with exponent_inf [OF t] show ?thesis
          using ocf oni v by (simp add: num_div_float_def)
      next
        case FloatInf
        with le ocf oni show ?thesis by (simp add: num_le_def)
      next
        case FloatNaN
        with le ocf oni show ?thesis by (simp add: num_le_def)
      qed
    qed
  next
    case onf: (FloatNum g)
    show ?thesis
    proof (cases f)
      case fx: (FloatV x)
      show ?thesis
      proof (cases g)
        case (FloatV y)
        with le ocf onf fx have "0 \<le> - (x - y)" by (simp add: num_le_def)
        from exponent_nonneg [OF this t] show ?thesis
          using ocf onf fx FloatV by (simp add: num_div_float_def)
      next
        case FloatInf
        with exponent_inf [OF t] show ?thesis
          using ocf onf fx by (simp add: num_div_float_def)
      next
        case FloatNegInf
        with le ocf onf fx show ?thesis by (simp add: num_le_def)
      next
        case FloatNaN
        with le ocf onf fx show ?thesis by (simp add: num_le_def)
      qed
    next
      case FloatInf
      with le ns ocf onf show ?thesis by (cases g) (simp_all add: num_le_def same_infinity_def)
    next
      case fn: FloatNegInf
      show ?thesis
      proof (cases g)
        case (FloatV y)
        with exponent_inf [OF t] show ?thesis
          using ocf onf fn by (simp add: num_div_float_def)
      next
        case FloatInf
        with exponent_inf [OF t] show ?thesis
          using ocf onf fn by (simp add: num_div_float_def)
      next
        case FloatNegInf
        with ns ocf onf fn show ?thesis by (simp add: same_infinity_def)
      next
        case FloatNaN
        with le ocf onf fn show ?thesis by (simp add: num_le_def)
      qed
    next
      case FloatNaN
      with le ocf onf show ?thesis by (cases g) (simp_all add: num_le_def)
    qed
  qed
qed

lemma boundary_nan:
  assumes "objective_py pm (current_state_py e) = Inr oc" "objective_py pm (Some nb) = Inr on"
    "same_infinity oc on" "temp_py e = FloatV t" "t \<noteq> 0"
  shows "accept_neighbor_py pm k e nb = Inr False"
  using assms by (auto simp: accept_neighbor_py_def acceptance_def same_infinity_def
      num_div_float_def)

section \<open>The claims\<close>

subsection \<open>C1: the pair a run returns\<close>

text \<open>
  C1 describes what \<open>run\<close> is documented to return, and the code misses it on the
  default path: line 149 sets \<open>best_objective\<close> and leaves \<open>best_state\<close> at \<open>None\<close>,
  where both seeding loops set the two together. When no climbing iteration finds a
  strictly better state (here every neighbour is worse and rejected), or when there is
  no climbing iteration, \<open>run\<close> returns \<open>None\<close> as the best state.
\<close>

theorem run_default_path_no_best_state:
  "(case run descent_problem (new_shc 0 1 3 None 1 []) of
      Inl err \<Rightarrow> False
    | Inr (e', out) \<Rightarrow>
        returned e' = (None, Num 0) \<and> current_state e' = Some 0
        \<and> cur_steps e' = 2 \<and> out = ReachedMaximumSteps)
   \<and> (case run descent_problem (new_shc 0 1 1 None 1 []) of
      Inl err \<Rightarrow> False
    | Inr (e', out) \<Rightarrow>
        returned e' = (None, Num 0) \<and> cur_steps e' = 0 \<and> out = ReachedMaximumSteps)"
  by (simp add: run_def seeding_def clear_def new_shc_def descent_problem_def line_problem_def
      Let_def remaining_def py_range_2 py_range_0 climb_iter_def accept_neighbor_worse_by_one
      target_exceeded_def returned_def)

text \<open>What does hold of the pair: when \<open>best_state\<close> is set at all, its objective is
  \<open>best_objective\<close>.\<close>

lemma best_state_agrees_when_set:
  "\<forall>s\<in>set (climbing_states pm e0).
     best_state s \<noteq> None \<longrightarrow> best_objective s = Num (objective pm (best_state s))"
proof (cases "seeding pm ((clear e0)\<lparr>current_objective := best_objective (clear e0)\<rparr>)")
  case (Inl err)
  then show ?thesis by (simp add: climbing_states_def Let_def)
next
  case (Inr e3)
  let ?P = "\<lambda>e. best_state_agrees pm e \<and> best_known e"
  have "best_state ((clear e0)\<lparr>current_objective := best_objective (clear e0)\<rparr>) = None
        \<and> best_known ((clear e0)\<lparr>current_objective := best_objective (clear e0)\<rparr>)"
    by (simp add: best_known_def clear_def)
  then have k3: "?P e3" using Inr by (rule seeding_agrees)
  then have "\<forall>s\<in>set (climb_trace pm (py_range (remaining e3)) e3). ?P s"
    using climb_trace_invariant [of ?P pm e3] climb_iter_agrees by blast
  with k3 Inr have "\<forall>s\<in>set (climbing_states pm e0). best_state_agrees pm s"
    by (simp add: climbing_states_def Let_def)
  then show ?thesis by (auto simp: best_state_agrees_def)
qed

subsection \<open>C2: the best objective is the running maximum\<close>

text \<open>
  C2: in a run with a positive temperature, at every evaluation point (the start of the
  run, after each seeding evaluation and after each climbing iteration)
  \<open>best_objective\<close> is the greatest of the objective values evaluated so far, the
  rejected neighbours included (\<open>float('-inf')\<close> while nothing was evaluated); the
  sequence of its values over the run is non-decreasing; and the run returns, in the
  last of these states.
\<close>

theorem best_objective_running_max:
  assumes "0 < temp e0"
  shows "(\<forall>s\<in>set (run_trace pm e0).
            best_objective s
              = (if evaluated s = [] then NegInf else Num (Max (set (evaluated s)))))
         \<and> sorted_wrt (\<lambda>a b. py_le (best_objective a) (best_objective b)) (run_trace pm e0)
         \<and> (\<exists>out. run pm e0 = Inr (last (run_trace pm e0), out))"
proof -
  note r = run_max [OF assms, of pm]
  have "sorted_wrt best_le (run_trace pm e0)"
    using r successively_conv_sorted_wrt [OF transp_best_le] by blast
  then have "sorted_wrt (\<lambda>a b. py_le (best_objective a) (best_objective b)) (run_trace pm e0)"
    by (simp add: best_le_def [abs_def])
  with r best_is_max_Max show ?thesis by blast
qed

theorem best_objective_running_max_witness:
  "0 < temp (new_shc 0 1 5 None 1 [1, 3, 2])
   \<and> map best_objective (run_trace descent_problem (new_shc 0 1 5 None 1 [1, 3, 2]))
       = [NegInf, Num 1, Num 3, Num 3, Num 3]
   \<and> map evaluated (run_trace descent_problem (new_shc 0 1 5 None 1 [1, 3, 2]))
       = [[], [1], [3, 1], [2, 3, 1], [2, 1, 2, 2, 3, 1]]
   \<and> sorted_wrt (\<lambda>a b. py_le (best_objective a) (best_objective b))
        (run_trace descent_problem (new_shc 0 1 5 None 1 [1, 3, 2]))
   \<and> (\<exists>out. run descent_problem (new_shc 0 1 5 None 1 [1, 3, 2])
          = Inr (last (run_trace descent_problem (new_shc 0 1 5 None 1 [1, 3, 2])), out))"
  using best_objective_running_max [of "new_shc 0 1 5 None 1 [1, 3, 2]" descent_problem]
  by (simp add: run_trace_def seeding_trace_def seeding_def seed_step_def clear_def new_shc_def
      descent_problem_def line_problem_def Let_def remaining_def py_range_def climb_iter_def
      accept_neighbor_worse_by_one target_exceeded_def)

subsection \<open>C3: stopping at the target\<close>

text \<open>
  C3 is what the docstring of the constructor promises (\<open>max_objective\<close>: "objective
  function to stop algorithm once reached") and what the message of line 168 says, and
  the code misses it by the strict \<open>>\<close> of line 167. With the target 0, the start
  state 0 of objective 0 and neighbours that are worse and rejected, the target is
  reached (\<open>best_objective = max_objective\<close>) from the seeding on, and yet the run
  performs both of its climbing iterations and ends with the budget exhausted.
\<close>

theorem run_target_equal_not_stopped:
  "(case run descent_problem (new_shc 0 1 3 (Some 0) 1 []) of
      Inl err \<Rightarrow> False
    | Inr (e', out) \<Rightarrow>
        max_objective e' = Some 0 \<and> best_objective e' = Num 0
        \<and> best_objective e' = Num (objective descent_problem (current_state e'))
        \<and> cur_steps e' = 2 \<and> out = ReachedMaximumSteps)"
  by (simp add: run_def seeding_def clear_def new_shc_def descent_problem_def line_problem_def
      Let_def remaining_def py_range_2 climb_iter_def accept_neighbor_worse_by_one
      target_exceeded_def)

subsection \<open>C4: the acceptance boundary\<close>

text \<open>
  C4, as stated, fails: the constructor stores any numeric temperature, and with a
  negative one a neighbour that is strictly better gives \<open>p < 1\<close> and is accepted only
  when the draw allows it. Here the temperature is \<open>-1\<close>, the current state has
  objective 1, the neighbour has objective 2 and the draw is 9/10: the neighbour is
  rejected.
\<close>

theorem accept_neighbor_boundary_counterexample:
  "init (1::int) (ArgInt (- 1)) (ArgInt 5) ArgNone 1 []
     = Inr (new_shc_py 1 (FloatV (- 1)) 5 None 1 [])
   \<and> objective_py descent_problem_py
       (current_state_py ((new_shc_py 1 (FloatV (- 1)) 5 None 1 [])\<lparr>current_state_py := Some 1\<rparr>))
       = Inr (IntNum 1)
   \<and> objective_py descent_problem_py (Some 2) = Inr (IntNum 2)
   \<and> num_le (IntNum 1) (IntNum 2)
   \<and> accept_neighbor_py descent_problem_py 0
       ((new_shc_py 1 (FloatV (- 1)) 5 None 1 [])\<lparr>current_state_py := Some 1\<rparr>) 2 = Inr False"
  using exp_minus_one_le_half not_overflows_nonpos [of "- 1"]
  by (simp add: accept_neighbor_py_def acceptance_def new_shc_py_def descent_problem_py_def
        line_problem_py_def num_le_def num_div_float_def init_def float_of_int_def
        int_too_large_def round53_def)

text \<open>
  C4, amended: when the temperature is a finite positive float and
  \<open>objective(current) <= objective(neighbor)\<close> holds in Python, \<open>_accept_neighbor\<close>
  returns \<open>True\<close> whatever \<open>random()\<close> draws (also when \<open>exp\<close>, or the conversion of an
  \<open>int\<close> objective to a \<open>float\<close>, overflows), unless both objective values are the same
  infinity: then the difference is NaN, so is \<open>p\<close>, and \<open>_accept_neighbor\<close> returns
  \<open>False\<close> whatever is drawn.
\<close>

theorem accept_neighbor_boundary:
  assumes "objective_py pm (current_state_py e) = Inr oc"
    and "objective_py pm (Some nb) = Inr on"
    and "num_le oc on"
    and "temp_py e = FloatV t" and "0 < t"
    and "representable oc" and "representable on"
  shows "accept_neighbor_py pm k e nb = Inr (\<not> same_infinity oc on)"
proof (cases "same_infinity oc on")
  case True
  from assms(5) have "t \<noteq> 0" by simp
  from boundary_nan [OF assms(1) assms(2) True assms(4) this] True show ?thesis by simp
next
  case False
  from boundary_core [OF assms(3) assms(5) False assms(6) assms(7)]
  have "surely_accepted (acceptance pm e nb)"
    by (simp only: acceptance_eq [OF assms(1) assms(2) assms(4)])
  from accept_of_acceptance [OF this] False show ?thesis by simp
qed

theorem accept_neighbor_boundary_witness:
  "accept_neighbor_py line_problem_py 0
     ((new_shc_py 0 (FloatV 1) 5 None 1 [])\<lparr>current_state_py := Some 0\<rparr>) 2 = Inr True
   \<and> accept_neighbor_py float_problem_py 0
       ((new_shc_py 0 (FloatV 1) 5 None 1 [])\<lparr>current_state_py := Some (- 1)\<rparr>) 3 = Inr True
   \<and> accept_neighbor_py float_problem_py 0
       ((new_shc_py 0 (FloatV 1) 5 None 1 [])\<lparr>current_state_py := Some (- 1)\<rparr>) (- 2)
       = Inr False"
proof -
  have d3: "is_double 3" using is_double_of_nat [of 3] by simp
  have a: "accept_neighbor_py line_problem_py 0
     ((new_shc_py 0 (FloatV 1) 5 None 1 [])\<lparr>current_state_py := Some 0\<rparr>) 2 = Inr True"
    using accept_neighbor_boundary
      [of line_problem_py "(new_shc_py 0 (FloatV 1) 5 None 1 [])\<lparr>current_state_py := Some 0\<rparr>"
          "IntNum 0" 2 "IntNum 2" 1 0]
    by (simp add: line_problem_py_def new_shc_py_def num_le_def same_infinity_def)
  have b: "accept_neighbor_py float_problem_py 0
       ((new_shc_py 0 (FloatV 1) 5 None 1 [])\<lparr>current_state_py := Some (- 1)\<rparr>) 3 = Inr True"
    using accept_neighbor_boundary
      [of float_problem_py
          "(new_shc_py 0 (FloatV 1) 5 None 1 [])\<lparr>current_state_py := Some (- 1)\<rparr>"
          "FloatNum FloatNegInf" 3 "FloatNum (FloatV 3)" 1 0] d3
    by (simp add: float_problem_py_def line_problem_py_def new_shc_py_def num_le_def
          same_infinity_def)
  have c: "accept_neighbor_py float_problem_py 0
       ((new_shc_py 0 (FloatV 1) 5 None 1 [])\<lparr>current_state_py := Some (- 1)\<rparr>) (- 2)
       = Inr False"
    using accept_neighbor_boundary
      [of float_problem_py
          "(new_shc_py 0 (FloatV 1) 5 None 1 [])\<lparr>current_state_py := Some (- 1)\<rparr>"
          "FloatNum FloatNegInf" "- 2" "FloatNum FloatNegInf" 1 0]
    by (simp add: float_problem_py_def line_problem_py_def new_shc_py_def num_le_def
          same_infinity_def)
  from a b c show ?thesis by simp
qed

subsection \<open>C5: construction\<close>

text \<open>
  C5, as stated, fails in its second part: the constructor tests only that the
  temperature is an \<open>int\<close> or a \<open>float\<close>, so a temperature of \<open>-1\<close> is converted to
  \<open>-1.0\<close> and stored, and construction succeeds.
\<close>

theorem init_temperature_counterexample:
  "to_float (ArgInt (- 1)) = Inr (FloatV (- 1))
   \<and> \<not> fl_gt (FloatV (- 1)) (FloatV 0)
   \<and> init (0::int) (ArgInt (- 1)) (ArgInt 5) ArgNone 1 []
       = Inr (new_shc_py 0 (FloatV (- 1)) 5 None 1 [])"
  by (simp add: init_def float_of_int_def int_too_large_def round53_def)

text \<open>
  C5, amended: construction fails exactly when max steps is not an \<open>int\<close> greater than
  zero, or max objective is given and is not an \<open>int\<close> or \<open>float\<close>, or the temperature is
  not an \<open>int\<close> or \<open>float\<close>, or max objective or the temperature is an \<open>int\<close> that \<open>float\<close>
  cannot convert. The exception is that of the first failing step in the order of the
  source: a \<open>ValueError\<close> with the message of the check, or the \<open>OverflowError\<close> of the
  conversion. The sign of the temperature is not checked. On success the object holds
  \<open>float(temp)\<close>, max steps, \<open>float(max_objective)\<close> or \<open>None\<close>, and the other arguments
  as given, and the run-time attributes keep the defaults of the class.
\<close>

theorem init_fails_iff:
  "((\<exists>err. init s t ms mo n ps = Inl err) \<longleftrightarrow>
      \<not> (is_int ms \<and> 0 < to_int ms) \<or> (mo \<noteq> ArgNone \<and> \<not> is_float_or_int mo)
      \<or> \<not> is_float_or_int t \<or> arg_too_large mo \<or> arg_too_large t)
   \<and> (\<forall>err. init s t ms mo n ps = Inl err \<longrightarrow>
          err = (if \<not> (is_int ms \<and> 0 < to_int ms)
                 then ValueError ''Max steps must be a positive integer''
                 else if mo \<noteq> ArgNone \<and> \<not> is_float_or_int mo
                 then ValueError ''Maximum objective must be a numeric type''
                 else if arg_too_large mo then OverflowError
                 else if \<not> is_float_or_int t
                 then ValueError ''Temperature must be a numeric type''
                 else OverflowError))
   \<and> (\<forall>e. init s t ms mo n ps = Inr e \<longrightarrow>
          to_float t = Inr (temp_py e) \<and> max_steps_py e = to_int ms
          \<and> (case max_objective_py e of
               None \<Rightarrow> mo = ArgNone
             | Some m \<Rightarrow> mo \<noteq> ArgNone \<and> to_float mo = Inr m)
          \<and> initial_state_py e = s \<and> n_samples_py e = n \<and> points_to_evaluate_py e = ps
          \<and> cur_steps_py e = 0 \<and> current_state_py e = None \<and> best_state_py e = None
          \<and> best_objective_py e = ObjNum (FloatNum FloatNegInf)
          \<and> current_objective_py e = ObjNone)"
proof (intro conjI allI impI)
  show "(\<exists>err. init s t ms mo n ps = Inl err) \<longleftrightarrow>
      \<not> (is_int ms \<and> 0 < to_int ms) \<or> (mo \<noteq> ArgNone \<and> \<not> is_float_or_int mo)
      \<or> \<not> is_float_or_int t \<or> arg_too_large mo \<or> arg_too_large t"
    by (rule init_Inl_iff)
next
  fix err assume "init s t ms mo n ps = Inl err"
  then show "err = (if \<not> (is_int ms \<and> 0 < to_int ms)
                 then ValueError ''Max steps must be a positive integer''
                 else if mo \<noteq> ArgNone \<and> \<not> is_float_or_int mo
                 then ValueError ''Maximum objective must be a numeric type''
                 else if arg_too_large mo then OverflowError
                 else if \<not> is_float_or_int t
                 then ValueError ''Temperature must be a numeric type''
                 else OverflowError)"
    by (rule init_Inl_error)
next
  fix e assume ok: "init s t ms mo n ps = Inr e"
  note st = init_Inr_stores [OF ok]
  from st show "to_float t = Inr (temp_py e)" by blast
  from st show "max_steps_py e = to_int ms" by blast
  from st show "case max_objective_py e of
               None \<Rightarrow> mo = ArgNone
             | Some m \<Rightarrow> mo \<noteq> ArgNone \<and> to_float mo = Inr m" by blast
  from st have e: "e = new_shc_py s (temp_py e) (to_int ms) (max_objective_py e) n ps"
    by blast
  show "initial_state_py e = s" by (subst e) (simp add: new_shc_py_def)
  show "n_samples_py e = n" by (subst e) (simp add: new_shc_py_def)
  show "points_to_evaluate_py e = ps" by (subst e) (simp add: new_shc_py_def)
  show "cur_steps_py e = 0" by (subst e) (simp add: new_shc_py_def)
  show "current_state_py e = None" by (subst e) (simp add: new_shc_py_def)
  show "best_state_py e = None" by (subst e) (simp add: new_shc_py_def)
  show "best_objective_py e = ObjNum (FloatNum FloatNegInf)"
    by (subst e) (simp add: new_shc_py_def)
  show "current_objective_py e = ObjNone" by (subst e) (simp add: new_shc_py_def)
qed

theorem init_fails_iff_witness:
  "init (0::int) (ArgFloat (FloatV 1)) (ArgInt 100) (ArgInt 3) 1 []
     = Inr (new_shc_py 0 (FloatV 1) 100 (Some (FloatV 3)) 1 [])
   \<and> init (0::int) (ArgInt (2 ^ 53 + 3)) (ArgBool True) ArgNone 1 []
       = Inr (new_shc_py 0 (FloatV (2 ^ 53 + 4)) 1 None 1 [])
   \<and> init (0::int) (ArgStr ''hot'') (ArgInt 100) ArgNone 1 []
       = Inl (ValueError ''Temperature must be a numeric type'')
   \<and> init (0::int) (ArgFloat (FloatV 1)) (ArgFloat (FloatV 100)) ArgNone 1 []
       = Inl (ValueError ''Max steps must be a positive integer'')
   \<and> init (0::int) (ArgFloat (FloatV 1)) (ArgInt 0) ArgNone 1 []
       = Inl (ValueError ''Max steps must be a positive integer'')
   \<and> init (0::int) (ArgFloat (FloatV 1)) (ArgInt 100) (ArgStr ''high'') 1 []
       = Inl (ValueError ''Maximum objective must be a numeric type'')
   \<and> init (0::int) (ArgInt (10 ^ 309)) (ArgInt 100) ArgNone 1 [] = Inl OverflowError
   \<and> init (0::int) (ArgStr ''hot'') (ArgInt 100) (ArgInt (10 ^ 309)) 1 []
       = Inl OverflowError"
  using init_fails_iff [of "0::int" "ArgFloat (FloatV 1)" "ArgInt 100" "ArgInt 3" 1 "[]"]
  by (simp add: init_def float_of_int_def int_too_large_def round53_def compute_floorlog
        Let_def)

subsection \<open>C6: the exceptions of a run\<close>




subsection \<open>C7: a negative best objective\<close>

text \<open>
  C7, as stated, fails: a negative number is truthy, so \<open>best_objective or 0\<close> is
  \<open>best_objective\<close> itself. Starting from the state \<open>-5\<close> (objective \<open>-5\<close>), the first
  climbing iteration moves to \<open>-3\<close> and records the negative objective \<open>-3\<close> as the
  new best.
\<close>

theorem climb_iter_negative_best_counterexample:
  "(case seeding line_problem (clear (new_shc (- 5) 1 2 None 1 [])) of
      Inl err \<Rightarrow> False
    | Inr e \<Rightarrow>
        best_objective e = Num (- 5) \<and>
        (case climb_iter line_problem 0 e of
           Inl err \<Rightarrow> False
         | Inr e' \<Rightarrow> current_state e' = Some (- 3) \<and> best_objective e' = Num (- 3)
                      \<and> best_state e' = Some (- 3)))"
  by (simp add: seeding_def clear_def new_shc_def line_problem_def Let_def climb_iter_def
      accept_neighbor_nonneg deepcopy_def)

text \<open>
  C7, amended: the fallback to 0 replaces only \<open>None\<close> and zero. When
  \<open>best_objective\<close> is a number \<open>b\<close>, negative or not, a climbing iteration (with a
  non-zero temperature) leaves \<open>best_objective = max b (objective(current))\<close>: every
  candidate strictly better than \<open>b\<close> becomes the best.
\<close>

theorem climb_iter_negative_best:
  assumes "temp e \<noteq> 0" and "best_objective e = Num b"
  shows "\<exists>e'. climb_iter pm i e = Inr e'
           \<and> best_objective e' = Num (max b (objective pm (current_state e')))
           \<and> best_state e' = (if b < objective pm (current_state e')
                               then current_state e' else best_state e)"
proof -
  obtain a where a: "accept_neighbor pm i (e\<lparr>cur_steps := cur_steps e + 1\<rparr>)
                       (neighbor pm i (current_state e)) = Inr a"
    using accept_neighbor_total [of "e\<lparr>cur_steps := cur_steps e + 1\<rparr>" pm i] assms(1)
    by auto
  show ?thesis
    using a assms(2) by (cases a) (auto simp: climb_iter_def Let_def deepcopy_def max_def)
qed

theorem climb_iter_negative_best_witness:
  "temp ((new_shc (- 5) 1 2 None 1 [])
           \<lparr>current_state := Some (- 5), best_objective := Num (- 5)\<rparr>) \<noteq> 0
   \<and> (case climb_iter line_problem 0
             ((new_shc (- 5) 1 2 None 1 [])
                \<lparr>current_state := Some (- 5), best_objective := Num (- 5)\<rparr>) of
         Inl err \<Rightarrow> False
       | Inr e' \<Rightarrow> best_objective e' = Num (max (- 5) (- 3)) \<and> best_state e' = Some (- 3))"
  using climb_iter_negative_best
    [of "(new_shc (- 5) 1 2 None 1 [])
           \<lparr>current_state := Some (- 5), best_objective := Num (- 5)\<rparr>" "- 5" line_problem 0]
  by (simp add: new_shc_def line_problem_def Let_def climb_iter_def
      accept_neighbor_nonneg deepcopy_def)

subsection \<open>C8: the best state as an independent copy\<close>

text \<open>
  C8 is what the climbing phase does and what both seeding loops miss: lines 136 and
  144 assign \<open>self.current_state\<close> itself, where line 165 assigns a \<open>deepcopy\<close>.
  After a run seeded with the point at address 0 (content 5), whose two climbing
  iterations reject their neighbours, \<open>best_state\<close> and \<open>current_state\<close> are the same
  object, the caller's point: a mutation of it to 7 changes what \<open>best_state\<close> holds,
  while \<open>best_objective\<close> stays 5.
\<close>

theorem seeding_best_state_alias:
  "(case run_ref descent_problem (new_shc 0 1 4 None 1 [0], [5]) of
      Inl err \<Rightarrow> False
    | Inr ((e', h'), out) \<Rightarrow>
        out = ReachedMaximumSteps \<and> cur_steps e' = 2
        \<and> best_objective e' = Num 5
        \<and> best_state e' = Some 0 \<and> current_state e' = Some 0
        \<and> points_to_evaluate e' = [0]
        \<and> deref h' (best_state e') = Some 5
        \<and> deref (mutate 0 7 h') (best_state e') = Some 7)"
  by (simp add: run_ref_def seeding_ref_def seed_step_ref_def climb_iter_ref_def clear_def
      new_shc_def descent_problem_def line_problem_def Let_def remaining_def py_range_2
      deref_def alloc_def mutate_def accept_neighbor_ref_worse_by_one target_exceeded_def)

text \<open>The same after the random-sampling loop; and a best state recorded in the
  climbing phase is a copy that a mutation of the current state does not reach.\<close>

lemma sampling_best_state_alias:
  "(case run_ref line_problem (new_shc 0 1 2 None 2 [], [5]) of
      Inl err \<Rightarrow> False
    | Inr ((e', h'), out) \<Rightarrow>
        out = ReachedMaximumSteps \<and> cur_steps e' = 0
        \<and> best_objective e' = Num 1
        \<and> best_state e' = Some 2 \<and> current_state e' = Some 2
        \<and> deref h' (best_state e') = Some 1
        \<and> deref (mutate 2 7 h') (best_state e') = Some 7)"
  by (simp add: run_ref_def seeding_ref_def seed_step_ref_def sample_loop_ref.simps clear_def
      new_shc_def line_problem_def Let_def remaining_def py_range_0
      deref_def alloc_def mutate_def target_exceeded_def)

lemma climbing_best_state_copy:
  "(case run_ref line_problem (new_shc 0 1 3 None 1 [0], [5]) of
      Inl err \<Rightarrow> False
    | Inr ((e', h'), out) \<Rightarrow>
        out = ReachedMaximumSteps \<and> cur_steps e' = 1
        \<and> best_objective e' = Num 7
        \<and> current_state e' = Some 1 \<and> best_state e' = Some 2
        \<and> deref h' (best_state e') = Some 7
        \<and> deref (mutate 1 9 h') (best_state e') = Some 7)"
  by (simp add: run_ref_def seeding_ref_def seed_step_ref_def climb_iter_ref_def clear_def
      new_shc_def line_problem_def Let_def remaining_def py_range_def
      deref_def alloc_def mutate_def deepcopy_ref_def accept_neighbor_ref_nonneg
      target_exceeded_def)

subsection \<open>C9: the number of climbing iterations\<close>



subsection \<open>C10: the best objective is never None while climbing\<close>

text \<open>
  C10: in every state in which the body of the climbing loop is entered or left (there
  is at least one, the state the seeding leaves), \<open>best_objective\<close> is not \<open>None\<close>:
  it is \<open>float('-inf')\<close> or one of the objective values evaluated so far. Hence \<open>objective(current) > (best_objective or 0)\<close> and
  \<open>(best_objective or 0) > max_objective\<close> give what the same comparisons on
  \<open>best_objective\<close> itself give, and the body of the loop and the test of the target
  do what their versions without the fallback do.
\<close>

theorem best_objective_never_None:
  "climbing_states pm e0 \<noteq> []
   \<and> (\<forall>s\<in>set (climbing_states pm e0).
      best_objective s \<noteq> PyNone
      \<and> (best_objective s = NegInf \<or> (\<exists>v\<in>set (evaluated s). best_objective s = Num v))
      \<and> (\<forall>x. py_gt (Num x) (py_or0 (best_objective s)) = py_gt (Num x) (best_objective s))
      \<and> (\<forall>m. py_gt (py_or0 (best_objective s)) (Num m) = py_gt (best_objective s) (Num m))
      \<and> (\<forall>i. climb_iter pm i s = climb_iter_direct pm i s)
      \<and> target_exceeded s = target_exceeded_direct s)"
proof
  show "climbing_states pm e0 \<noteq> []"
    using seeding_start [of pm e0] by (auto simp: climbing_states_def Let_def)
next
  show "\<forall>s\<in>set (climbing_states pm e0).
      best_objective s \<noteq> PyNone
      \<and> (best_objective s = NegInf \<or> (\<exists>v\<in>set (evaluated s). best_objective s = Num v))
      \<and> (\<forall>x. py_gt (Num x) (py_or0 (best_objective s)) = py_gt (Num x) (best_objective s))
      \<and> (\<forall>m. py_gt (py_or0 (best_objective s)) (Num m) = py_gt (best_objective s) (Num m))
      \<and> (\<forall>i. climb_iter pm i s = climb_iter_direct pm i s)
      \<and> target_exceeded s = target_exceeded_direct s"
  proof
    fix s
    assume "s \<in> set (climbing_states pm e0)"
    then have k: "best_known s" using climbing_states_known by blast
    then have nn: "best_objective s \<noteq> PyNone" by (rule best_known_not_None)
    from k have "best_objective s = NegInf
        \<or> (\<exists>v\<in>set (evaluated s). best_objective s = Num v)"
      by (simp add: best_known_def)
    with nn show "best_objective s \<noteq> PyNone
      \<and> (best_objective s = NegInf \<or> (\<exists>v\<in>set (evaluated s). best_objective s = Num v))
      \<and> (\<forall>x. py_gt (Num x) (py_or0 (best_objective s)) = py_gt (Num x) (best_objective s))
      \<and> (\<forall>m. py_gt (py_or0 (best_objective s)) (Num m) = py_gt (best_objective s) (Num m))
      \<and> (\<forall>i. climb_iter pm i s = climb_iter_direct pm i s)
      \<and> target_exceeded s = target_exceeded_direct s"
      by (simp add: py_or0_id climb_iter_direct_eq target_exceeded_direct_eq)
  qed
qed

theorem best_objective_never_None_witness:
  "map best_objective (climbing_states line_problem (new_shc 0 1 3 (Some 10) 1 []))
     = [Num 0, Num 2, Num 4]
   \<and> map evaluated (climbing_states line_problem (new_shc 0 1 3 (Some 10) 1 []))
     = [[0], [2, 2, 2, 0, 0], [4, 4, 4, 2, 2, 2, 2, 0, 0]]
   \<and> list_all (\<lambda>s. best_objective s \<noteq> PyNone
                   \<and> target_exceeded s = target_exceeded_direct s)
        (climbing_states line_problem (new_shc 0 1 3 (Some 10) 1 []))"
proof -
  have states: "climbing_states line_problem (new_shc 0 1 3 (Some 10) 1 []) =
    [(new_shc 0 1 3 (Some 10) 1 [])
       \<lparr>current_state := Some 0, best_objective := Num 0, current_objective := NegInf,
        evaluated := [0]\<rparr>,
     (new_shc 0 1 3 (Some 10) 1 [])
       \<lparr>current_state := Some 2, best_state := Some 2, cur_steps := 1,
        best_objective := Num 2, current_objective := NegInf,
        evaluated := [2, 2, 2, 0, 0]\<rparr>,
     (new_shc 0 1 3 (Some 10) 1 [])
       \<lparr>current_state := Some 4, best_state := Some 4, cur_steps := 2,
        best_objective := Num 4, current_objective := NegInf,
        evaluated := [4, 4, 4, 2, 2, 2, 2, 0, 0]\<rparr>]"
    by (simp add: climbing_states_def seeding_def clear_def new_shc_def
        line_problem_def Let_def remaining_def py_range_2 climb_iter_def
        accept_neighbor_nonneg target_exceeded_def deepcopy_def)
  show ?thesis
    using best_objective_never_None [of line_problem "new_shc 0 1 3 (Some 10) 1 []"]
    unfolding states by (simp add: new_shc_def)
qed

end
